theory Spec2Isabelle
  imports Main
begin

section \<open>Raw storage\<close>

text \<open>
  A pointer \<open>T*\<close> is a pair of a block handle and a slot offset inside the block; handle
  \<open>0\<close> is \<open>nullptr\<close>. A slot is either uninitialised memory or holds a live object of
  the element type. The heap keeps the contents of every slot and the allocation table:
  entry \<open>h - 1\<close> of the table is \<open>Some n\<close> while block \<open>h\<close> (of \<open>n\<close> slots) is allocated and
  \<open>None\<close> once it has been released. \<open>size_t\<close> values are natural numbers: the sizes of
  objects that fit into memory never reach the point where \<open>++size_\<close> or \<open>size_ * 2\<close>
  wraps; the one subtraction that can wrap, \<open>size_ - 1\<close>, is written out.
\<close>

type_synonym ptr = "nat \<times> nat"

datatype 'a slot = Raw | Live 'a

datatype error = BadAlloc | CtorThrew | CopyThrew | MoveThrew | AssertFailed | Undefined | Terminated

record 'a heap =
  mem :: "ptr \<Rightarrow> 'a slot"
  table :: "nat option list"

text \<open>
  What the container needs to know about its element type \<open>T\<close>: the three type traits the
  code dispatches on, which operations of \<open>T\<close> throw on which values, the value a
  moved-from object is left with, and whether \<open>operator new\<close> fails for a request.
\<close>

record 'a type_T =
  is_nothrow_move_constructible :: bool
  is_copy_constructible :: bool
  is_nothrow_move_assignable :: bool
  value_init :: "error + 'a"
  copy_ctor_throws :: "'a \<Rightarrow> bool"
  copy_assign_throws :: "'a \<Rightarrow> bool"
  move_ctor_throws :: "'a \<Rightarrow> bool"
  move_assign_throws :: "'a \<Rightarrow> bool"
  moved_from :: "'a \<Rightarrow> 'a"
  new_throws :: "nat \<Rightarrow> bool"

definition SIZE_MAX :: nat where
  "SIZE_MAX = 2 ^ 64 - 1"

definition live_block :: "'a heap \<Rightarrow> nat \<Rightarrow> nat option" where
  "live_block hp h = (if h = 0 \<or> length (table hp) < h then None else table hp ! (h - 1))"

record RawMemory =
  buffer_m :: nat
  capacity_m :: nat

definition Allocate :: "'a type_T \<Rightarrow> nat \<Rightarrow> 'a heap \<Rightarrow> error + nat \<times> 'a heap" where
  "Allocate T n hp =
     (if n \<noteq> 0 then
        (if new_throws T n then Inl BadAlloc
         else let h = Suc (length (table hp))
              in Inr (h, \<lparr>mem = (\<lambda>(b, i). if b = h then Raw else mem hp (b, i)),
                          table = table hp @ [Some n]\<rparr>))
      else Inr (0, hp))"

definition Deallocate :: "nat \<Rightarrow> 'a heap \<Rightarrow> 'a heap" where
  "Deallocate buf hp =
     (if buf = 0 \<or> length (table hp) < buf then hp
      else hp\<lparr>table := (table hp)[buf - 1 := None]\<rparr>)"

definition RawMemory_default :: RawMemory where
  "RawMemory_default = \<lparr>buffer_m = 0, capacity_m = 0\<rparr>"

definition RawMemory_ctor :: "'a type_T \<Rightarrow> nat \<Rightarrow> 'a heap \<Rightarrow> error + RawMemory \<times> 'a heap" where
  "RawMemory_ctor T capacity hp =
     (case Allocate T capacity hp of
        Inl e \<Rightarrow> Inl e
      | Inr (b, hp') \<Rightarrow> Inr (\<lparr>buffer_m = b, capacity_m = capacity\<rparr>, hp'))"

text \<open>\<open>Swap\<close> returns the new values of \<open>*this\<close> and of \<open>other\<close>.\<close>

definition RawMemory_Swap :: "RawMemory \<Rightarrow> RawMemory \<Rightarrow> RawMemory \<times> RawMemory" where
  "RawMemory_Swap this other =
     (\<lparr>buffer_m = buffer_m other, capacity_m = capacity_m other\<rparr>,
      \<lparr>buffer_m = buffer_m this, capacity_m = capacity_m this\<rparr>)"

definition RawMemory_move_ctor :: "RawMemory \<Rightarrow> RawMemory \<times> RawMemory" where
  "RawMemory_move_ctor other = RawMemory_Swap RawMemory_default other"

definition RawMemory_dtor :: "RawMemory \<Rightarrow> 'a heap \<Rightarrow> 'a heap" where
  "RawMemory_dtor this hp = Deallocate (buffer_m this) hp"

text \<open>
  Move assignment compares the addresses of its two operands, so it is modelled on a
  store of \<open>RawMemory\<close> objects indexed by their addresses.
\<close>

definition RawMemory_move_assign ::
  "nat \<Rightarrow> nat \<Rightarrow> (nat \<Rightarrow> RawMemory) \<times> 'a heap \<Rightarrow> (nat \<Rightarrow> RawMemory) \<times> 'a heap" where
  "RawMemory_move_assign this rhs st =
     (let (objs, hp) = st in
      if this \<noteq> rhs then
        let hp' = Deallocate (buffer_m (objs this)) hp;
            (t, r) = RawMemory_Swap (objs this) (objs rhs)
        in ((objs(this := t))(rhs := r), hp')
      else st)"

definition RawMemory_plus :: "RawMemory \<Rightarrow> nat \<Rightarrow> error + ptr" where
  "RawMemory_plus this offset =
     (if offset \<le> capacity_m this then Inr (buffer_m this, offset) else Inl AssertFailed)"

definition RawMemory_index :: "RawMemory \<Rightarrow> nat \<Rightarrow> error + ptr" where
  "RawMemory_index this index =
     (if index < capacity_m this then Inr (buffer_m this, index) else Inl AssertFailed)"

definition GetAddress :: "RawMemory \<Rightarrow> ptr" where
  "GetAddress this = (buffer_m this, 0)"

definition Capacity_raw :: "RawMemory \<Rightarrow> nat" where
  "Capacity_raw this = capacity_m this"

section \<open>Operations of the element type on slots\<close>

definition ptr_plus :: "ptr \<Rightarrow> nat \<Rightarrow> ptr" where
  "ptr_plus p k = (fst p, snd p + k)"

text \<open>
  \<open>p - k\<close> on pointers is only ever evaluated by the container with \<open>k\<close> at most the
  offset of \<open>p\<close> (the callers check that the range is not empty first).
\<close>

definition ptr_minus :: "ptr \<Rightarrow> nat \<Rightarrow> ptr" where
  "ptr_minus p k = (fst p, snd p - k)"

text \<open>Pointers are ordered only inside one block.\<close>

definition ptr_le :: "ptr \<Rightarrow> ptr \<Rightarrow> bool" where
  "ptr_le p q = (fst p = fst q \<and> snd p \<le> snd q)"

definition distance :: "ptr \<Rightarrow> ptr \<Rightarrow> error + nat" where
  "distance first last' = (if ptr_le first last' then Inr (snd last' - snd first) else Inl Undefined)"

definition construct_at :: "ptr \<Rightarrow> 'a \<Rightarrow> 'a heap \<Rightarrow> 'a heap" where
  "construct_at p x hp = hp\<lparr>mem := (mem hp)(p := Live x)\<rparr>"

definition destroy_at :: "ptr \<Rightarrow> 'a heap \<Rightarrow> 'a heap" where
  "destroy_at p hp = hp\<lparr>mem := (mem hp)(p := Raw)\<rparr>"

text \<open>
  \<open>new (p) T(std::forward<Ts>(vs)...)\<close>, given the outcome of the constructor call: the
  exception it throws or the value it builds.
\<close>

definition placement_new :: "error + 'a \<Rightarrow> ptr \<Rightarrow> 'a heap \<Rightarrow> error + 'a heap" where
  "placement_new mk p hp = (case mk of Inl e \<Rightarrow> Inl e | Inr x \<Rightarrow> Inr (construct_at p x hp))"

text \<open>\<open>new (dst) T(*src)\<close>; reading uninitialised memory is undefined behaviour.\<close>

definition copy_construct :: "'a type_T \<Rightarrow> ptr \<Rightarrow> ptr \<Rightarrow> 'a heap \<Rightarrow> error + 'a heap" where
  "copy_construct T src dst hp =
     (case mem hp src of
        Raw \<Rightarrow> Inl Undefined
      | Live x \<Rightarrow> if copy_ctor_throws T x then Inl CopyThrew else Inr (construct_at dst x hp))"

text \<open>
  \<open>new (dst) T(std::move(*src))\<close>; a move constructor declared \<open>noexcept\<close> does not
  throw, and the source object stays alive with its moved-from value.
\<close>

definition move_construct :: "'a type_T \<Rightarrow> ptr \<Rightarrow> ptr \<Rightarrow> 'a heap \<Rightarrow> error + 'a heap" where
  "move_construct T src dst hp =
     (case mem hp src of
        Raw \<Rightarrow> Inl Undefined
      | Live x \<Rightarrow>
          if \<not> is_nothrow_move_constructible T \<and> move_ctor_throws T x then Inl MoveThrew
          else Inr (construct_at src (moved_from T x) (construct_at dst x hp)))"

text \<open>\<open>*dst = *src\<close>; both objects must be alive.\<close>

definition copy_assign :: "'a type_T \<Rightarrow> ptr \<Rightarrow> ptr \<Rightarrow> 'a heap \<Rightarrow> error + 'a heap" where
  "copy_assign T src dst hp =
     (case mem hp src of
        Raw \<Rightarrow> Inl Undefined
      | Live x \<Rightarrow>
          (case mem hp dst of
             Raw \<Rightarrow> Inl Undefined
           | Live y \<Rightarrow>
               if copy_assign_throws T x then Inl CopyThrew else Inr (construct_at dst x hp)))"

text \<open>\<open>*dst = std::move(x)\<close> for a local object \<open>x\<close>.\<close>

definition move_assign_from :: "'a type_T \<Rightarrow> 'a \<Rightarrow> ptr \<Rightarrow> 'a heap \<Rightarrow> error + 'a heap" where
  "move_assign_from T x dst hp =
     (case mem hp dst of
        Raw \<Rightarrow> Inl Undefined
      | Live y \<Rightarrow>
          if \<not> is_nothrow_move_assignable T \<and> move_assign_throws T x then Inl MoveThrew
          else Inr (construct_at dst x hp))"

text \<open>\<open>*dst = std::move(*src)\<close>.\<close>

definition move_assign :: "'a type_T \<Rightarrow> ptr \<Rightarrow> ptr \<Rightarrow> 'a heap \<Rightarrow> error + 'a heap" where
  "move_assign T src dst hp =
     (case mem hp src of
        Raw \<Rightarrow> Inl Undefined
      | Live x \<Rightarrow>
          (case move_assign_from T x dst hp of
             Inl e \<Rightarrow> Inl e
           | Inr hp' \<Rightarrow> Inr (construct_at src (moved_from T x) hp')))"

section \<open>The standard algorithms the container calls\<close>

text \<open>
  A counted loop over the heap: \<open>for_n step k n\<close> runs \<open>step k\<close>, \<open>step (k + 1)\<close>, ... \<open>n\<close>
  times and stops at the first step that throws, returning the exception, the index of
  the failed step and the heap at that moment.
\<close>

fun for_n :: "(nat \<Rightarrow> 'a heap \<Rightarrow> error + 'a heap) \<Rightarrow> nat \<Rightarrow> nat \<Rightarrow> 'a heap
    \<Rightarrow> error \<times> nat \<times> 'a heap + 'a heap" where
  "for_n step k 0 hp = Inr hp"
| "for_n step k (Suc n) hp =
     (case step k hp of
        Inl e \<Rightarrow> Inl (e, k, hp)
      | Inr hp' \<Rightarrow> for_n step (Suc k) n hp')"

definition destroy_n :: "ptr \<Rightarrow> nat \<Rightarrow> 'a heap \<Rightarrow> 'a heap" where
  "destroy_n first n hp = fold (\<lambda>k. destroy_at (ptr_plus first k)) [0..<n] hp"

text \<open>
  The \<open>uninitialized_*\<close> algorithms destroy what they have constructed before they let
  the exception of an element escape.
\<close>

definition uninitialized_value_construct_n ::
  "'a type_T \<Rightarrow> ptr \<Rightarrow> nat \<Rightarrow> 'a heap \<Rightarrow> (error + unit) \<times> 'a heap" where
  "uninitialized_value_construct_n T first n hp =
     (case for_n (\<lambda>k. placement_new (value_init T) (ptr_plus first k)) 0 n hp of
        Inl (e, k, hp') \<Rightarrow> (Inl e, destroy_n first k hp')
      | Inr hp' \<Rightarrow> (Inr (), hp'))"

definition uninitialized_copy_n ::
  "'a type_T \<Rightarrow> ptr \<Rightarrow> nat \<Rightarrow> ptr \<Rightarrow> 'a heap \<Rightarrow> (error + unit) \<times> 'a heap" where
  "uninitialized_copy_n T first n d_first hp =
     (case for_n (\<lambda>k. copy_construct T (ptr_plus first k) (ptr_plus d_first k)) 0 n hp of
        Inl (e, k, hp') \<Rightarrow> (Inl e, destroy_n d_first k hp')
      | Inr hp' \<Rightarrow> (Inr (), hp'))"

definition uninitialized_move_n ::
  "'a type_T \<Rightarrow> ptr \<Rightarrow> nat \<Rightarrow> ptr \<Rightarrow> 'a heap \<Rightarrow> (error + unit) \<times> 'a heap" where
  "uninitialized_move_n T first n d_first hp =
     (case for_n (\<lambda>k. move_construct T (ptr_plus first k) (ptr_plus d_first k)) 0 n hp of
        Inl (e, k, hp') \<Rightarrow> (Inl e, destroy_n d_first k hp')
      | Inr hp' \<Rightarrow> (Inr (), hp'))"

definition uninitialized_copy ::
  "'a type_T \<Rightarrow> ptr \<Rightarrow> ptr \<Rightarrow> ptr \<Rightarrow> 'a heap \<Rightarrow> (error + unit) \<times> 'a heap" where
  "uninitialized_copy T first last' d_first hp =
     (case distance first last' of
        Inl e \<Rightarrow> (Inl e, hp)
      | Inr n \<Rightarrow> uninitialized_copy_n T first n d_first hp)"

definition uninitialized_move ::
  "'a type_T \<Rightarrow> ptr \<Rightarrow> ptr \<Rightarrow> ptr \<Rightarrow> 'a heap \<Rightarrow> (error + unit) \<times> 'a heap" where
  "uninitialized_move T first last' d_first hp =
     (case distance first last' of
        Inl e \<Rightarrow> (Inl e, hp)
      | Inr n \<Rightarrow> uninitialized_move_n T first n d_first hp)"

text \<open>The assigning algorithms leave the elements already assigned as they are.\<close>

definition copy_n ::
  "'a type_T \<Rightarrow> ptr \<Rightarrow> nat \<Rightarrow> ptr \<Rightarrow> 'a heap \<Rightarrow> (error + unit) \<times> 'a heap" where
  "copy_n T first n d_first hp =
     (case for_n (\<lambda>k. copy_assign T (ptr_plus first k) (ptr_plus d_first k)) 0 n hp of
        Inl (e, k, hp') \<Rightarrow> (Inl e, hp')
      | Inr hp' \<Rightarrow> (Inr (), hp'))"

definition std_copy ::
  "'a type_T \<Rightarrow> ptr \<Rightarrow> ptr \<Rightarrow> ptr \<Rightarrow> 'a heap \<Rightarrow> (error + unit) \<times> 'a heap" where
  "std_copy T first last' d_first hp =
     (case distance first last' of
        Inl e \<Rightarrow> (Inl e, hp)
      | Inr n \<Rightarrow> copy_n T first n d_first hp)"

definition std_move ::
  "'a type_T \<Rightarrow> ptr \<Rightarrow> ptr \<Rightarrow> ptr \<Rightarrow> 'a heap \<Rightarrow> (error + unit) \<times> 'a heap" where
  "std_move T first last' d_first hp =
     (case distance first last' of
        Inl e \<Rightarrow> (Inl e, hp)
      | Inr n \<Rightarrow>
          (case for_n (\<lambda>k. move_assign T (ptr_plus first k) (ptr_plus d_first k)) 0 n hp of
             Inl (e, k, hp') \<Rightarrow> (Inl e, hp')
           | Inr hp' \<Rightarrow> (Inr (), hp')))"

definition move_backward ::
  "'a type_T \<Rightarrow> ptr \<Rightarrow> ptr \<Rightarrow> ptr \<Rightarrow> 'a heap \<Rightarrow> (error + unit) \<times> 'a heap" where
  "move_backward T first last' d_last hp =
     (case distance first last' of
        Inl e \<Rightarrow> (Inl e, hp)
      | Inr n \<Rightarrow>
          (case for_n (\<lambda>k. move_assign T (ptr_minus last' (Suc k)) (ptr_minus d_last (Suc k))) 0 n hp of
             Inl (e, k, hp') \<Rightarrow> (Inl e, hp')
           | Inr hp' \<Rightarrow> (Inr (), hp')))"

section \<open>The dynamic array\<close>

text \<open>
  The members \<open>buffer_\<close>, \<open>capacity_\<close>, \<open>data_\<close> and \<open>size_\<close> are the fields \<open>buffer_m\<close>,
  \<open>capacity_m\<close>, \<open>data_m\<close> and \<open>size_m\<close>. A member function that works on one array takes
  the heap and the value of \<open>*this\<close> and returns what it returns or throws together with
  the heap and \<open>*this\<close> afterwards. An \<open>assert\<close> that fails and a step the language leaves
  undefined end the call with \<open>AssertFailed\<close> and \<open>Undefined\<close>.
\<close>

record Vector =
  data_m :: RawMemory
  size_m :: nat

text \<open>
  An argument of the element type passed by reference: an lvalue or an rvalue that is an
  object of its own, given by its value, or an lvalue that is an element of an array,
  given by the pointer to its slot.
\<close>

datatype 'a arg = Lvalue 'a | Rvalue 'a | Element ptr

definition Vector_default :: Vector where
  "Vector_default = \<lparr>data_m = RawMemory_default, size_m = 0\<rparr>"

definition Vector_ctor :: "'a type_T \<Rightarrow> nat \<Rightarrow> 'a heap \<Rightarrow> (error + Vector) \<times> 'a heap" where
  "Vector_ctor T size' hp =
     (case RawMemory_ctor T size' hp of
        Inl e \<Rightarrow> (Inl e, hp)
      | Inr (d, hp1) \<Rightarrow>
          (case uninitialized_value_construct_n T (GetAddress d) size' hp1 of
             (Inl e, hp2) \<Rightarrow> (Inl e, RawMemory_dtor d hp2)
           | (Inr u, hp2) \<Rightarrow> (Inr \<lparr>data_m = d, size_m = size'\<rparr>, hp2)))"

definition Vector_copy_ctor :: "'a type_T \<Rightarrow> Vector \<Rightarrow> 'a heap \<Rightarrow> (error + Vector) \<times> 'a heap" where
  "Vector_copy_ctor T other hp =
     (case RawMemory_ctor T (size_m other) hp of
        Inl e \<Rightarrow> (Inl e, hp)
      | Inr (d, hp1) \<Rightarrow>
          (case uninitialized_copy_n T (GetAddress (data_m other)) (size_m other) (GetAddress d) hp1 of
             (Inl e, hp2) \<Rightarrow> (Inl e, RawMemory_dtor d hp2)
           | (Inr u, hp2) \<Rightarrow> (Inr \<lparr>data_m = d, size_m = size_m other\<rparr>, hp2)))"

text \<open>The move constructor returns the new object and the value \<open>other\<close> is left with.\<close>

definition Vector_move_ctor :: "Vector \<Rightarrow> Vector \<times> Vector" where
  "Vector_move_ctor other =
     (let (d, od) = RawMemory_move_ctor (data_m other)
      in (\<lparr>data_m = d, size_m = size_m other\<rparr>, \<lparr>data_m = od, size_m = 0\<rparr>))"

definition Vector_dtor :: "Vector \<Rightarrow> 'a heap \<Rightarrow> 'a heap" where
  "Vector_dtor this hp =
     RawMemory_dtor (data_m this) (destroy_n (GetAddress (data_m this)) (size_m this) hp)"

definition begin_v :: "Vector \<Rightarrow> ptr" where
  "begin_v this = GetAddress (data_m this)"

definition end_v :: "Vector \<Rightarrow> error + ptr" where
  "end_v this = RawMemory_plus (data_m this) (size_m this)"

definition Size :: "Vector \<Rightarrow> nat" where
  "Size this = size_m this"

definition Capacity :: "Vector \<Rightarrow> nat" where
  "Capacity this = Capacity_raw (data_m this)"

definition Vector_index :: "Vector \<Rightarrow> nat \<Rightarrow> error + ptr" where
  "Vector_index this index =
     (if index < size_m this then RawMemory_index (data_m this) index else Inl AssertFailed)"

definition Vector_Swap :: "Vector \<Rightarrow> Vector \<Rightarrow> Vector \<times> Vector" where
  "Vector_Swap this other =
     (let (d, od) = RawMemory_Swap (data_m this) (data_m other)
      in (\<lparr>data_m = d, size_m = size_m other\<rparr>, \<lparr>data_m = od, size_m = size_m this\<rparr>))"

text \<open>
  Relocation of the first \<open>n\<close> elements into a new buffer, by move when the move
  constructor cannot throw or there is no copy constructor, by copy otherwise.
\<close>

definition use_move :: "'a type_T \<Rightarrow> bool" where
  "use_move T = (is_nothrow_move_constructible T \<or> \<not> is_copy_constructible T)"

definition Reserve :: "'a type_T \<Rightarrow> nat \<Rightarrow> 'a heap \<times> Vector \<Rightarrow> (error + unit) \<times> 'a heap \<times> Vector" where
  "Reserve T new_capacity st =
     (let (hp, this) = st in
      if new_capacity \<le> Capacity_raw (data_m this) then (Inr (), hp, this)
      else
        (case RawMemory_ctor T new_capacity hp of
           Inl e \<Rightarrow> (Inl e, hp, this)
         | Inr (new_data, hp1) \<Rightarrow>
             (case (if use_move T
                    then uninitialized_move_n T (GetAddress (data_m this)) (size_m this)
                           (GetAddress new_data) hp1
                    else uninitialized_copy_n T (GetAddress (data_m this)) (size_m this)
                           (GetAddress new_data) hp1) of
                (Inl e, hp2) \<Rightarrow> (Inl e, RawMemory_dtor new_data hp2, this)
              | (Inr u, hp2) \<Rightarrow>
                  (let hp3 = destroy_n (GetAddress (data_m this)) (size_m this) hp2;
                       (d, nd) = RawMemory_Swap (data_m this) new_data
                   in (Inr (), RawMemory_dtor nd hp3, this\<lparr>data_m := d\<rparr>)))))"

definition Resize :: "'a type_T \<Rightarrow> nat \<Rightarrow> 'a heap \<times> Vector \<Rightarrow> (error + unit) \<times> 'a heap \<times> Vector" where
  "Resize T new_size st =
     (let (hp, this) = st in
      if new_size < size_m this then
        (case RawMemory_index (data_m this) new_size of
           Inl e \<Rightarrow> (Inl e, hp, this)
         | Inr p \<Rightarrow> (Inr (), destroy_n p (size_m this - new_size) hp, this\<lparr>size_m := new_size\<rparr>))
      else if new_size > size_m this then
        (case Reserve T new_size (hp, this) of
           (Inl e, hp1, this1) \<Rightarrow> (Inl e, hp1, this1)
         | (Inr u, hp1, this1) \<Rightarrow>
             (case RawMemory_index (data_m this1) (size_m this1) of
                Inl e \<Rightarrow> (Inl e, hp1, this1)
              | Inr p \<Rightarrow>
                  (case uninitialized_value_construct_n T p (new_size - size_m this1) hp1 of
                     (Inl e, hp2) \<Rightarrow> (Inl e, hp2, this1)
                   | (Inr u', hp2) \<Rightarrow> (Inr (), hp2, this1\<lparr>size_m := new_size\<rparr>))))
      else (Inr (), hp, this\<lparr>size_m := new_size\<rparr>))"

text \<open>\<open>size_ - 1\<close> and \<open>--size_\<close> wrap to \<open>SIZE_MAX\<close> when \<open>size_\<close> is 0.\<close>

definition PopBack :: "'a heap \<times> Vector \<Rightarrow> (error + unit) \<times> 'a heap \<times> Vector" where
  "PopBack st =
     (let (hp, this) = st;
          index = (if size_m this = 0 then SIZE_MAX else size_m this - 1)
      in case RawMemory_index (data_m this) index of
           Inl e \<Rightarrow> (Inl e, hp, this)
         | Inr p \<Rightarrow> (Inr (), destroy_at p hp, this\<lparr>size_m := index\<rparr>))"

text \<open>
  In \<open>EmplaceBack\<close> and \<open>Emplace\<close> the constructor call \<open>T(std::forward<Ts>(vs)...)\<close> is the
  function \<open>mk\<close> from the heap at the moment of the call to its outcome: the arguments may
  refer to elements of the array.
\<close>

definition EmplaceBack ::
  "'a type_T \<Rightarrow> ('a heap \<Rightarrow> error + 'a) \<Rightarrow> 'a heap \<times> Vector
    \<Rightarrow> (error + ptr) \<times> 'a heap \<times> Vector" where
  "EmplaceBack T mk st =
     (let (hp, this) = st in
      if size_m this = Capacity_raw (data_m this) then
        (let new_capacity = (if size_m this = 0 then 1 else size_m this * 2) in
         case RawMemory_ctor T new_capacity hp of
           Inl e \<Rightarrow> (Inl e, hp, this)
         | Inr (new_data, hp1) \<Rightarrow>
             (case RawMemory_plus new_data (size_m this) of
                Inl e \<Rightarrow> (Inl e, RawMemory_dtor new_data hp1, this)
              | Inr result \<Rightarrow>
                  (case placement_new (mk hp1) result hp1 of
                     Inl e \<Rightarrow> (Inl e, RawMemory_dtor new_data hp1, this)
                   | Inr hp2 \<Rightarrow>
                       (case (if use_move T
                              then uninitialized_move_n T (GetAddress (data_m this)) (size_m this)
                                     (GetAddress new_data) hp2
                              else uninitialized_copy_n T (GetAddress (data_m this)) (size_m this)
                                     (GetAddress new_data) hp2) of
                          (Inl e, hp3) \<Rightarrow> (Inl e, RawMemory_dtor new_data hp3, this)
                        | (Inr u, hp3) \<Rightarrow>
                            (let hp4 = destroy_n (GetAddress (data_m this)) (size_m this) hp3;
                                 (d, nd) = RawMemory_Swap (data_m this) new_data
                             in (Inr result, RawMemory_dtor nd hp4,
                                 \<lparr>data_m = d, size_m = size_m this + 1\<rparr>))))))
      else
        (case RawMemory_plus (data_m this) (size_m this) of
           Inl e \<Rightarrow> (Inl e, hp, this)
         | Inr result \<Rightarrow>
             (case placement_new (mk hp) result hp of
                Inl e \<Rightarrow> (Inl e, hp, this)
              | Inr hp1 \<Rightarrow> (Inr result, hp1, this\<lparr>size_m := size_m this + 1\<rparr>))))"

text \<open>\<open>T(std::forward<F>(value))\<close>: the copy or the move constructor, by value category.\<close>

fun forward_construct :: "'a type_T \<Rightarrow> 'a arg \<Rightarrow> 'a heap \<Rightarrow> error + 'a" where
  "forward_construct T (Lvalue x) hp = (if copy_ctor_throws T x then Inl CopyThrew else Inr x)"
| "forward_construct T (Rvalue x) hp =
     (if \<not> is_nothrow_move_constructible T \<and> move_ctor_throws T x then Inl MoveThrew else Inr x)"
| "forward_construct T (Element p) hp =
     (case mem hp p of
        Raw \<Rightarrow> Inl Undefined
      | Live x \<Rightarrow> if copy_ctor_throws T x then Inl CopyThrew else Inr x)"

definition PushBack ::
  "'a type_T \<Rightarrow> 'a arg \<Rightarrow> 'a heap \<times> Vector \<Rightarrow> (error + unit) \<times> 'a heap \<times> Vector" where
  "PushBack T value st =
     (case EmplaceBack T (forward_construct T value) st of
        (Inl e, st') \<Rightarrow> (Inl e, st')
      | (Inr r, st') \<Rightarrow> (Inr (), st'))"

text \<open>
  \<open>Emplace\<close>: \<open>pos\<close> is a pointer. The value of \<open>end()\<close> is the same at each of its uses
  before \<open>size_\<close> or \<open>data_\<close> change, so it is computed once.
\<close>

definition Emplace ::
  "'a type_T \<Rightarrow> ptr \<Rightarrow> ('a heap \<Rightarrow> error + 'a) \<Rightarrow> 'a heap \<times> Vector
    \<Rightarrow> (error + ptr) \<times> 'a heap \<times> Vector" where
  "Emplace T pos mk st =
     (let (hp, this) = st in
      case end_v this of
        Inl e \<Rightarrow> (Inl e, hp, this)
      | Inr end' \<Rightarrow>
          if \<not> (ptr_le (begin_v this) pos \<and> ptr_le pos end') then (Inl AssertFailed, hp, this)
          else if pos = end' then EmplaceBack T mk st
          else
            (let pos_index = snd pos - snd (begin_v this) in
             if size_m this = Capacity_raw (data_m this) then
               (let new_capacity = (if size_m this = 0 then 1 else size_m this * 2) in
                case RawMemory_ctor T new_capacity hp of
                  Inl e \<Rightarrow> (Inl e, hp, this)
                | Inr (new_data, hp1) \<Rightarrow>
                    (case RawMemory_plus new_data pos_index of
                       Inl e \<Rightarrow> (Inl e, RawMemory_dtor new_data hp1, this)
                     | Inr result \<Rightarrow>
                         (case placement_new (mk hp1) result hp1 of
                            Inl e \<Rightarrow> (Inl e, RawMemory_dtor new_data hp1, this)
                          | Inr hp2 \<Rightarrow>
                              (case (if use_move T then
                                       (case uninitialized_move T (begin_v this)
                                               (ptr_plus (begin_v this) pos_index)
                                               (GetAddress new_data) hp2 of
                                          (Inl e, hp3) \<Rightarrow> (Inl e, hp3)
                                        | (Inr u, hp3) \<Rightarrow>
                                            uninitialized_move T (ptr_plus (begin_v this) pos_index)
                                              end' (ptr_plus result 1) hp3)
                                     else
                                       (case uninitialized_copy T (begin_v this)
                                               (ptr_plus (begin_v this) pos_index)
                                               (GetAddress new_data) hp2 of
                                          (Inl e, hp3) \<Rightarrow> (Inl e, destroy_at result hp3)
                                        | (Inr u, hp3) \<Rightarrow>
                                            (case uninitialized_copy T
                                                    (ptr_plus (begin_v this) pos_index)
                                                    end' (ptr_plus result 1) hp3 of
                                               (Inl e, hp4) \<Rightarrow>
                                                 (Inl e, destroy_n (GetAddress new_data)
                                                           (pos_index + 1) hp4)
                                             | (Inr u', hp4) \<Rightarrow> (Inr (), hp4)))) of
                                 (Inl e, hp5) \<Rightarrow> (Inl e, RawMemory_dtor new_data hp5, this)
                               | (Inr u, hp5) \<Rightarrow>
                                   (let hp6 = destroy_n (GetAddress (data_m this)) (size_m this) hp5;
                                        (d, nd) = RawMemory_Swap (data_m this) new_data
                                    in (Inr result, RawMemory_dtor nd hp6,
                                        \<lparr>data_m = d, size_m = size_m this + 1\<rparr>))))))
             else
               (case move_construct T (ptr_minus end' 1) end' hp of
                  Inl e \<Rightarrow> (Inl e, hp, this)
                | Inr hp1 \<Rightarrow>
                    (case mk hp1 of
                       Inl e \<Rightarrow> (Inl e, hp1, this)
                     | Inr buffer \<Rightarrow>
                         (case move_backward T (ptr_plus (begin_v this) pos_index)
                                 (ptr_minus end' 1) end' hp1 of
                            (Inl e, hp2) \<Rightarrow> (Inl e, hp2, this)
                          | (Inr u, hp2) \<Rightarrow>
                              (case RawMemory_plus (data_m this) pos_index of
                                 Inl e \<Rightarrow> (Inl e, hp2, this)
                               | Inr p \<Rightarrow>
                                   (case move_assign_from T buffer p hp2 of
                                      Inl e \<Rightarrow> (Inl e, hp2, this)
                                    | Inr hp3 \<Rightarrow>
                                        (Inr p, hp3, this\<lparr>size_m := size_m this + 1\<rparr>))))))))"

definition Insert ::
  "'a type_T \<Rightarrow> ptr \<Rightarrow> 'a arg \<Rightarrow> 'a heap \<times> Vector \<Rightarrow> (error + ptr) \<times> 'a heap \<times> Vector" where
  "Insert T pos value st = Emplace T pos (forward_construct T value) st"

text \<open>
  \<open>Erase\<close> is declared \<open>noexcept(std::is_nothrow_move_assignable_v<T>)\<close>: an exception
  that would leave it under that declaration terminates the program.
\<close>

definition is_exception :: "error \<Rightarrow> bool" where
  "is_exception e = (e = BadAlloc \<or> e = CtorThrew \<or> e = CopyThrew \<or> e = MoveThrew)"

definition Erase_noexcept :: "'a type_T \<Rightarrow> error \<Rightarrow> error" where
  "Erase_noexcept T e = (if is_nothrow_move_assignable T \<and> is_exception e then Terminated else e)"

definition Erase ::
  "'a type_T \<Rightarrow> ptr \<Rightarrow> 'a heap \<times> Vector \<Rightarrow> (error + ptr) \<times> 'a heap \<times> Vector" where
  "Erase T pos st =
     (let (hp, this) = st in
      case end_v this of
        Inl e \<Rightarrow> (Inl e, hp, this)
      | Inr end' \<Rightarrow>
          if \<not> (ptr_le (begin_v this) pos \<and> ptr_le pos end') then (Inl AssertFailed, hp, this)
          else
            (let pos_index = snd pos - snd (begin_v this) in
             case (if use_move T
                   then std_move T (ptr_plus (ptr_plus (begin_v this) pos_index) 1) end'
                          (ptr_plus (begin_v this) pos_index) hp
                   else std_copy T (ptr_plus (ptr_plus (begin_v this) pos_index) 1) end'
                          (ptr_plus (begin_v this) pos_index) hp) of
               (Inl e, hp1) \<Rightarrow> (Inl (Erase_noexcept T e), hp1, this)
             | (Inr u, hp1) \<Rightarrow>
                 (Inr (ptr_plus (begin_v this) pos_index), destroy_at (ptr_minus end' 1) hp1,
                  this\<lparr>size_m := size_m this - 1\<rparr>)))"

text \<open>
  The assignment operators and \<open>Swap\<close> take a second array by reference and compare
  addresses, so they work on a store of \<open>Vector\<close> objects indexed by their addresses.
\<close>

definition Vector_copy_assign ::
  "'a type_T \<Rightarrow> nat \<Rightarrow> nat \<Rightarrow> (nat \<Rightarrow> Vector) \<times> 'a heap
    \<Rightarrow> (error + unit) \<times> (nat \<Rightarrow> Vector) \<times> 'a heap" where
  "Vector_copy_assign T this rhs w =
     (let (objs, hp) = w in
      if this \<noteq> rhs then
        (let t = objs this; r = objs rhs in
         if size_m r > Capacity_raw (data_m t) then
           (case Vector_copy_ctor T r hp of
              (Inl e, hp1) \<Rightarrow> (Inl e, objs, hp1)
            | (Inr rhs_copy, hp1) \<Rightarrow>
                (let (t', c') = Vector_Swap t rhs_copy
                 in (Inr (), objs(this := t'), Vector_dtor c' hp1)))
         else if size_m r < size_m t then
           (case copy_n T (GetAddress (data_m r)) (size_m r) (GetAddress (data_m t)) hp of
              (Inl e, hp1) \<Rightarrow> (Inl e, objs, hp1)
            | (Inr u, hp1) \<Rightarrow>
                (case RawMemory_plus (data_m t) (size_m r) of
                   Inl e \<Rightarrow> (Inl e, objs, hp1)
                 | Inr p \<Rightarrow>
                     (Inr (), objs(this := t\<lparr>size_m := size_m r\<rparr>),
                      destroy_n p (size_m t - size_m r) hp1)))
         else
           (case copy_n T (GetAddress (data_m r)) (size_m t) (GetAddress (data_m t)) hp of
              (Inl e, hp1) \<Rightarrow> (Inl e, objs, hp1)
            | (Inr u, hp1) \<Rightarrow>
                (case RawMemory_plus (data_m r) (size_m t) of
                   Inl e \<Rightarrow> (Inl e, objs, hp1)
                 | Inr src \<Rightarrow>
                     (case RawMemory_plus (data_m t) (size_m t) of
                        Inl e \<Rightarrow> (Inl e, objs, hp1)
                      | Inr dst \<Rightarrow>
                          (case uninitialized_copy_n T src (size_m r - size_m t) dst hp1 of
                             (Inl e, hp2) \<Rightarrow> (Inl e, objs, hp2)
                           | (Inr u', hp2) \<Rightarrow>
                               (Inr (), objs(this := t\<lparr>size_m := size_m r\<rparr>), hp2))))))
      else (Inr (), objs, hp))"

definition Vector_move_assign ::
  "nat \<Rightarrow> nat \<Rightarrow> (nat \<Rightarrow> Vector) \<times> 'a heap \<Rightarrow> (nat \<Rightarrow> Vector) \<times> 'a heap" where
  "Vector_move_assign this rhs w =
     (let (objs, hp) = w in
      if this \<noteq> rhs then
        (let (d, rd) = RawMemory_Swap (data_m (objs this)) (data_m (objs rhs))
         in ((objs(this := \<lparr>data_m = d, size_m = size_m (objs rhs)\<rparr>))
               (rhs := \<lparr>data_m = rd, size_m = size_m (objs this)\<rparr>), hp))
      else w)"

text \<open>
  \<open>a.Swap(b)\<close> on the store; swapping an object with itself exchanges each member with
  itself.
\<close>

definition Vector_Swap_at ::
  "nat \<Rightarrow> nat \<Rightarrow> (nat \<Rightarrow> Vector) \<times> 'a heap \<Rightarrow> (nat \<Rightarrow> Vector) \<times> 'a heap" where
  "Vector_Swap_at this other w =
     (let (objs, hp) = w;
          (t, r) = Vector_Swap (objs this) (objs other)
      in ((objs(this := t))(other := r), hp))"

text \<open>The elements of an array: the contents of the slots \<open>[0, size_)\<close> of its buffer.\<close>

definition elems :: "'a heap \<Rightarrow> Vector \<Rightarrow> 'a slot list" where
  "elems hp this = map (\<lambda>i. mem hp (buffer_m (data_m this), i)) [0..<size_m this]"

section \<open>Programs that use arrays\<close>

text \<open>
  To speak about the states a program can reach, the arrays of a program are kept in a
  store indexed by their addresses (\<open>None\<close> marks an address whose object has been
  destroyed), next to the heap. A call is one use of the public interface; \<open>exec\<close> runs
  it and gives no successor state when an operand does not exist or the call does not
  come back to its caller (a failed \<open>assert\<close>, undefined behaviour, \<open>std::terminate\<close>). An
  exception that reaches the caller is a successor state like any other.
\<close>

definition lookup :: "Vector option list \<Rightarrow> nat \<Rightarrow> Vector option" where
  "lookup objs a = (if a < length objs then objs ! a else None)"

definition store_of :: "Vector option list \<Rightarrow> nat \<Rightarrow> Vector" where
  "store_of objs a = (case lookup objs a of Some v \<Rightarrow> v | None \<Rightarrow> Vector_default)"

fun aborted :: "error \<Rightarrow> bool" where
  "aborted AssertFailed = True"
| "aborted Undefined = True"
| "aborted Terminated = True"
| "aborted e = False"

definition returns :: "error + 'r \<Rightarrow> bool" where
  "returns res = (case res of Inl e \<Rightarrow> \<not> aborted e | Inr r \<Rightarrow> True)"

datatype 'a call =
    New_default
  | New_sized nat
  | New_copy nat
  | New_move nat
  | Delete nat
  | Copy_assign nat nat
  | Move_assign nat nat
  | Call_Swap nat nat
  | Call_Reserve nat nat
  | Call_Resize nat nat
  | Call_PushBack nat "'a arg"
  | Call_PopBack nat
  | Call_EmplaceBack nat "'a heap \<Rightarrow> error + 'a"
  | Call_Emplace nat ptr "'a heap \<Rightarrow> error + 'a"
  | Call_Insert nat ptr "'a arg"
  | Call_Erase nat ptr

type_synonym 'a world = "Vector option list \<times> 'a heap"

definition on_object ::
  "nat \<Rightarrow> ('a heap \<times> Vector \<Rightarrow> (error + 'r) \<times> 'a heap \<times> Vector) \<Rightarrow> 'a world \<Rightarrow> 'a world option" where
  "on_object a f w =
     (let (objs, hp) = w in
      case lookup objs a of
        None \<Rightarrow> None
      | Some v \<Rightarrow>
          (case f (hp, v) of
             (res, hp', v') \<Rightarrow> if returns res then Some (objs[a := Some v'], hp') else None))"

fun exec :: "'a type_T \<Rightarrow> 'a call \<Rightarrow> 'a world \<Rightarrow> 'a world option" where
  "exec T New_default (objs, hp) = Some (objs @ [Some Vector_default], hp)"
| "exec T (New_sized n) (objs, hp) =
     (case Vector_ctor T n hp of
        (Inl e, hp') \<Rightarrow> if aborted e then None else Some (objs, hp')
      | (Inr v, hp') \<Rightarrow> Some (objs @ [Some v], hp'))"
| "exec T (New_copy b) (objs, hp) =
     (case lookup objs b of
        None \<Rightarrow> None
      | Some other \<Rightarrow>
          (case Vector_copy_ctor T other hp of
             (Inl e, hp') \<Rightarrow> if aborted e then None else Some (objs, hp')
           | (Inr v, hp') \<Rightarrow> Some (objs @ [Some v], hp')))"
| "exec T (New_move b) (objs, hp) =
     (case lookup objs b of
        None \<Rightarrow> None
      | Some other \<Rightarrow>
          (let (v, other') = Vector_move_ctor other
           in Some (objs[b := Some other'] @ [Some v], hp)))"
| "exec T (Delete a) (objs, hp) =
     (case lookup objs a of
        None \<Rightarrow> None
      | Some v \<Rightarrow> Some (objs[a := None], Vector_dtor v hp))"
| "exec T (Copy_assign a b) (objs, hp) =
     (if lookup objs a = None \<or> lookup objs b = None then None
      else
        (case Vector_copy_assign T a b (store_of objs, hp) of
           (res, s', hp') \<Rightarrow> if returns res then Some (objs[a := Some (s' a)], hp') else None))"
| "exec T (Move_assign a b) (objs, hp) =
     (if lookup objs a = None \<or> lookup objs b = None then None
      else
        (let (s', hp') = Vector_move_assign a b (store_of objs, hp)
         in Some (objs[a := Some (s' a), b := Some (s' b)], hp')))"
| "exec T (Call_Swap a b) (objs, hp) =
     (if lookup objs a = None \<or> lookup objs b = None then None
      else
        (let (s', hp') = Vector_Swap_at a b (store_of objs, hp)
         in Some (objs[a := Some (s' a), b := Some (s' b)], hp')))"
| "exec T (Call_Reserve a n) w = on_object a (Reserve T n) w"
| "exec T (Call_Resize a n) w = on_object a (Resize T n) w"
| "exec T (Call_PushBack a v) w = on_object a (PushBack T v) w"
| "exec T (Call_PopBack a) w = on_object a PopBack w"
| "exec T (Call_EmplaceBack a mk) w = on_object a (EmplaceBack T mk) w"
| "exec T (Call_Emplace a pos mk) w = on_object a (Emplace T pos mk) w"
| "exec T (Call_Insert a pos v) w = on_object a (Insert T pos v) w"
| "exec T (Call_Erase a pos) w = on_object a (Erase T pos) w"

inductive reachable :: "'a type_T \<Rightarrow> 'a world \<Rightarrow> bool" for T where
  start: "reachable T ([], \<lparr>mem = (\<lambda>q. Raw), table = []\<rparr>)"
| call: "reachable T w \<Longrightarrow> exec T c w = Some w' \<Longrightarrow> reachable T w'"

text \<open>The invariant of one array, and of all arrays of a program.\<close>

definition size_within_capacity :: "Vector \<Rightarrow> bool" where
  "size_within_capacity this \<longleftrightarrow> 0 \<le> size_m this \<and> size_m this \<le> capacity_m (data_m this)"

definition world_invariant :: "'a world \<Rightarrow> bool" where
  "world_invariant w =
     list_all (\<lambda>obj. case obj of None \<Rightarrow> True | Some v \<Rightarrow> size_within_capacity v) (fst w)"

section \<open>Predicates used in the proofs\<close>

text \<open>\<open>in_range q p n\<close>: the pointer \<open>q\<close> lies in the \<open>n\<close> slots starting at \<open>p\<close>.\<close>

definition in_range :: "ptr \<Rightarrow> ptr \<Rightarrow> nat \<Rightarrow> bool" where
  "in_range q p n \<longleftrightarrow> fst q = fst p \<and> snd p \<le> snd q \<and> snd q < snd p + n"

text \<open>
  What the four element operations that read one slot and write another have in common.
\<close>

definition transfers :: "(ptr \<Rightarrow> ptr \<Rightarrow> 'a heap \<Rightarrow> error + 'a heap) \<Rightarrow> bool" where
  "transfers f \<longleftrightarrow>
     (\<forall>src dst h h'. f src dst h = Inr h' \<longrightarrow> src \<noteq> dst \<longrightarrow>
        mem h src \<noteq> Raw \<and> mem h' dst = mem h src \<and> mem h' src \<noteq> Raw \<and>
        (\<forall>q. q \<noteq> src \<longrightarrow> q \<noteq> dst \<longrightarrow> mem h' q = mem h q) \<and> table h' = table h)"

text \<open>
  \<open>holds hp this xs\<close>: the array \<open>this\<close> is in a consistent state on the heap \<open>hp\<close> and its
  elements are the values \<open>xs\<close>: its size is within its capacity, its buffer handle was
  issued by the allocator, and the slots \<open>[0, size_)\<close> hold live objects.
\<close>

definition holds :: "'a heap \<Rightarrow> Vector \<Rightarrow> 'a list \<Rightarrow> bool" where
  "holds hp this xs \<longleftrightarrow>
     size_m this = length xs \<and> length xs \<le> capacity_m (data_m this) \<and>
     buffer_m (data_m this) \<le> length (table hp) \<and>
     (\<forall>i<length xs. mem hp (buffer_m (data_m this), i) = Live (xs ! i))"

section \<open>Element types and states to run the model on\<close>

text \<open>
  \<open>int_T\<close> behaves like \<open>int\<close>: nothing throws and a moved-from object keeps its value.
  \<open>int_vector_T\<close> behaves like \<open>std::vector<int>\<close>: its moves are \<open>noexcept\<close>, its copies
  do not throw while memory lasts, and a moved-from object is empty. \<open>fragile_T\<close> throws from every copy and move of the value 13.
  \<open>assign_only_T\<close> has a \<open>noexcept\<close> move assignment, a move constructor that may throw
  and a copy assignment that throws on 13; \<open>construct_only_T\<close> has a \<open>noexcept\<close> move
  constructor and a move assignment that throws on 13.
\<close>

definition int_T :: "nat type_T" where
  "int_T = \<lparr>is_nothrow_move_constructible = True, is_copy_constructible = True,
     is_nothrow_move_assignable = True, value_init = Inr 0,
     copy_ctor_throws = (\<lambda>x. False), copy_assign_throws = (\<lambda>x. False),
     move_ctor_throws = (\<lambda>x. False), move_assign_throws = (\<lambda>x. False),
     moved_from = (\<lambda>x. x), new_throws = (\<lambda>n. False)\<rparr>"

definition int_vector_T :: "nat list type_T" where
  "int_vector_T = \<lparr>is_nothrow_move_constructible = True, is_copy_constructible = True,
     is_nothrow_move_assignable = True, value_init = Inr [],
     copy_ctor_throws = (\<lambda>x. False), copy_assign_throws = (\<lambda>x. False),
     move_ctor_throws = (\<lambda>x. False), move_assign_throws = (\<lambda>x. False),
     moved_from = (\<lambda>x. []), new_throws = (\<lambda>n. False)\<rparr>"

definition fragile_T :: "nat type_T" where
  "fragile_T = \<lparr>is_nothrow_move_constructible = False, is_copy_constructible = True,
     is_nothrow_move_assignable = False, value_init = Inr 0,
     copy_ctor_throws = (\<lambda>x. x = 13), copy_assign_throws = (\<lambda>x. x = 13),
     move_ctor_throws = (\<lambda>x. x = 13), move_assign_throws = (\<lambda>x. x = 13),
     moved_from = (\<lambda>x. x), new_throws = (\<lambda>n. False)\<rparr>"

definition assign_only_T :: "nat type_T" where
  "assign_only_T = \<lparr>is_nothrow_move_constructible = False, is_copy_constructible = True,
     is_nothrow_move_assignable = True, value_init = Inr 0,
     copy_ctor_throws = (\<lambda>x. False), copy_assign_throws = (\<lambda>x. x = 13),
     move_ctor_throws = (\<lambda>x. x = 13), move_assign_throws = (\<lambda>x. False),
     moved_from = (\<lambda>x. x), new_throws = (\<lambda>n. False)\<rparr>"

definition construct_only_T :: "nat type_T" where
  "construct_only_T = \<lparr>is_nothrow_move_constructible = True, is_copy_constructible = True,
     is_nothrow_move_assignable = False, value_init = Inr 0,
     copy_ctor_throws = (\<lambda>x. False), copy_assign_throws = (\<lambda>x. False),
     move_ctor_throws = (\<lambda>x. False), move_assign_throws = (\<lambda>x. x = 13),
     moved_from = (\<lambda>x. x), new_throws = (\<lambda>n. False)\<rparr>"

text \<open>
  One array on block 1 with capacity \<open>c\<close> and elements \<open>xs\<close>, and two arrays at addresses
  0 and 1 on blocks 1 and 2.
\<close>

definition sample_heap :: "nat \<Rightarrow> 'a list \<Rightarrow> 'a heap" where
  "sample_heap c xs =
     \<lparr>mem = (\<lambda>q. if fst q = 1 \<and> snd q < length xs then Live (xs ! snd q) else Raw),
      table = [Some c]\<rparr>"

definition sample_vector :: "nat \<Rightarrow> nat \<Rightarrow> Vector" where
  "sample_vector c n = \<lparr>data_m = \<lparr>buffer_m = 1, capacity_m = c\<rparr>, size_m = n\<rparr>"

definition sample_heap2 :: "nat \<Rightarrow> 'a list \<Rightarrow> nat \<Rightarrow> 'a list \<Rightarrow> 'a heap" where
  "sample_heap2 c xs c' ys =
     \<lparr>mem = (\<lambda>q. if fst q = 1 \<and> snd q < length xs then Live (xs ! snd q)
                else if fst q = 2 \<and> snd q < length ys then Live (ys ! snd q) else Raw),
      table = [Some c, Some c']\<rparr>"

definition sample_store :: "nat \<Rightarrow> nat \<Rightarrow> nat \<Rightarrow> nat \<Rightarrow> nat \<Rightarrow> Vector" where
  "sample_store c n c' n' a =
     (if a = 0 then \<lparr>data_m = \<lparr>buffer_m = 1, capacity_m = c\<rparr>, size_m = n\<rparr>
      else \<lparr>data_m = \<lparr>buffer_m = 2, capacity_m = c'\<rparr>, size_m = n'\<rparr>)"

definition sample_world :: "nat world" where
  "sample_world = the (exec int_T (New_sized 2) ([], \<lparr>mem = (\<lambda>q. Raw), table = []\<rparr>))"

section \<open>Heap and loop lemmas\<close>

lemma RawMemory_Swap_eq: "RawMemory_Swap this other = (other, this)"
  by (cases this, cases other) (simp add: RawMemory_Swap_def)

lemma RawMemory_move_assign_distinct:
  assumes "this \<noteq> rhs"
  shows "RawMemory_move_assign this rhs (objs, hp) =
           ((objs(this := objs rhs))(rhs := objs this), Deallocate (buffer_m (objs this)) hp)"
  using assms by (simp add: RawMemory_move_assign_def RawMemory_Swap_eq)

lemma mem_construct_at [simp]: "mem (construct_at p x hp) q = (if q = p then Live x else mem hp q)"
  by (simp add: construct_at_def)

lemma table_construct_at [simp]: "table (construct_at p x hp) = table hp"
  by (simp add: construct_at_def)

lemma mem_destroy_at [simp]: "mem (destroy_at p hp) q = (if q = p then Raw else mem hp q)"
  by (simp add: destroy_at_def)

lemma table_destroy_at [simp]: "table (destroy_at p hp) = table hp"
  by (simp add: destroy_at_def)

lemma table_destroy_n [simp]: "table (destroy_n first n hp) = table hp"
  unfolding destroy_n_def by (induction n) simp_all

lemma mem_destroy_n:
  "mem (destroy_n first n hp) q =
     (if fst q = fst first \<and> snd first \<le> snd q \<and> snd q < snd first + n then Raw else mem hp q)"
  unfolding destroy_n_def
proof (induction n)
  case 0
  then show ?case by auto
next
  case (Suc n)
  then show ?case by (cases q) (auto simp: ptr_plus_def)
qed

lemma mem_Deallocate [simp]: "mem (Deallocate b hp) = mem hp"
  by (simp add: Deallocate_def)

lemma length_table_Deallocate [simp]: "length (table (Deallocate b hp)) = length (table hp)"
  by (simp add: Deallocate_def)

lemma for_n_Inr:
  assumes "for_n step k n hp = Inr hp'"
    and "P k hp"
    and "\<And>j h h'. k \<le> j \<Longrightarrow> j < k + n \<Longrightarrow> P j h \<Longrightarrow> step j h = Inr h' \<Longrightarrow> P (Suc j) h'"
  shows "P (k + n) hp'"
  using assms
proof (induction n arbitrary: k hp)
  case 0
  then show ?case by simp
next
  case (Suc n)
  from Suc.prems(1) obtain h1 where s1: "step k hp = Inr h1" and r: "for_n step (Suc k) n h1 = Inr hp'"
    by (auto split: sum.splits)
  have P1: "P (Suc k) h1"
    using Suc.prems(3)[of k hp h1] Suc.prems(2) s1 by simp
  have "P (Suc k + n) hp'"
  proof (rule Suc.IH[OF r P1])
    fix j h h'
    assume "Suc k \<le> j" "j < Suc k + n" "P j h" "step j h = Inr h'"
    then show "P (Suc j) h'" using Suc.prems(3)[of j h h'] by simp
  qed
  then show ?case by simp
qed

lemma for_n_Inl:
  assumes "for_n step k n hp = Inl (e, i, hp')"
    and "P k hp"
    and "\<And>j h h'. k \<le> j \<Longrightarrow> j < k + n \<Longrightarrow> P j h \<Longrightarrow> step j h = Inr h' \<Longrightarrow> P (Suc j) h'"
  shows "k \<le> i \<and> i < k + n \<and> P i hp' \<and> step i hp' = Inl e"
  using assms
proof (induction n arbitrary: k hp)
  case 0
  then show ?case by simp
next
  case (Suc n)
  show ?case
  proof (cases "step k hp")
    case (Inl e')
    with Suc.prems(1,2) show ?thesis by auto
  next
    case (Inr h1)
    with Suc.prems(1) have r: "for_n step (Suc k) n h1 = Inl (e, i, hp')" by simp
    have P1: "P (Suc k) h1"
      using Suc.prems(3)[of k hp h1] Suc.prems(2) Inr by simp
    have "Suc k \<le> i \<and> i < Suc k + n \<and> P i hp' \<and> step i hp' = Inl e"
    proof (rule Suc.IH[OF r P1])
      fix j h h'
      assume "Suc k \<le> j" "j < Suc k + n" "P j h" "step j h = Inr h'"
      then show "P (Suc j) h'" using Suc.prems(3)[of j h h'] by simp
    qed
    then show ?thesis by simp
  qed
qed

lemma transfersD:
  assumes "transfers f" "f src dst h = Inr h'" "src \<noteq> dst"
  shows "mem h src \<noteq> Raw" "mem h' dst = mem h src" "mem h' src \<noteq> Raw"
    "\<And>q. q \<noteq> src \<Longrightarrow> q \<noteq> dst \<Longrightarrow> mem h' q = mem h q" "table h' = table h"
  using assms unfolding transfers_def by blast+

lemma transfers_copy_construct: "transfers (copy_construct T)"
  by (auto simp: transfers_def copy_construct_def split: slot.splits if_splits)

lemma transfers_move_construct: "transfers (move_construct T)"
  by (auto simp: transfers_def move_construct_def split: slot.splits if_splits)

lemma transfers_copy_assign: "transfers (copy_assign T)"
  by (auto simp: transfers_def copy_assign_def split: slot.splits if_splits)

lemma transfers_move_assign: "transfers (move_assign T)"
  by (auto simp: transfers_def move_assign_def move_assign_from_def split: slot.splits if_splits sum.splits)

lemma in_range_0 [simp]: "\<not> in_range q p 0"
  by (simp add: in_range_def)

lemma in_range_Suc: "in_range q p (Suc n) \<longleftrightarrow> in_range q p n \<or> q = ptr_plus p n"
  by (cases q) (auto simp: in_range_def ptr_plus_def)

lemma in_range_ptr_plus [simp]: "in_range (ptr_plus p k) p n \<longleftrightarrow> k < n"
  by (simp add: in_range_def ptr_plus_def)

lemma in_range_other_block: "fst p \<noteq> fst p' \<Longrightarrow> \<not> in_range (ptr_plus p k) p' n"
  by (simp add: in_range_def ptr_plus_def)

lemma for_n_relocate:
  assumes run: "for_n (\<lambda>k. f (ptr_plus s k) (ptr_plus d k)) 0 n hp = Inr hp'"
    and f: "transfers f" and ne: "fst s \<noteq> fst d"
  shows "table hp' = table hp \<and>
         (\<forall>k<n. mem hp' (ptr_plus d k) = mem hp (ptr_plus s k) \<and> mem hp (ptr_plus s k) \<noteq> Raw) \<and>
         (\<forall>q. \<not> in_range q s n \<longrightarrow> \<not> in_range q d n \<longrightarrow> mem hp' q = mem hp q)"
proof -
  let ?P = "\<lambda>j h. table h = table hp \<and>
         (\<forall>k<j. mem h (ptr_plus d k) = mem hp (ptr_plus s k) \<and> mem hp (ptr_plus s k) \<noteq> Raw) \<and>
         (\<forall>q. \<not> in_range q s j \<longrightarrow> \<not> in_range q d j \<longrightarrow> mem h q = mem hp q)"
  have "?P (0 + n) hp'"
  proof (rule for_n_Inr[OF run, where P = ?P])
    show "?P 0 hp" by simp
  next
    fix j h h'
    assume j: "0 \<le> j" "j < 0 + n" and P: "?P j h"
      and st: "f (ptr_plus s j) (ptr_plus d j) h = Inr h'"
    have sd: "ptr_plus s j \<noteq> ptr_plus d j" using ne by (auto simp: ptr_plus_def)
    note t = transfersD[OF f st sd]
    from P have fr: "\<And>q. \<not> in_range q s j \<Longrightarrow> \<not> in_range q d j \<Longrightarrow> mem h q = mem hp q"
      by blast
    from P have dn: "\<And>k. k < j \<Longrightarrow> mem h (ptr_plus d k) = mem hp (ptr_plus s k) \<and> mem hp (ptr_plus s k) \<noteq> Raw"
      by blast
    have src0: "mem h (ptr_plus s j) = mem hp (ptr_plus s j)"
      using ne by (intro fr) (simp_all add: in_range_other_block)
    show "?P (Suc j) h'"
    proof (intro conjI allI impI)
      show "table h' = table hp" using t(5) P by simp
    next
      fix k assume k: "k < Suc j"
      show "mem h' (ptr_plus d k) = mem hp (ptr_plus s k)"
      proof (cases "k = j")
        case True
        then show ?thesis using t(2) src0 by simp
      next
        case False
        then have kj: "k < j" using k by simp
        have "ptr_plus d k \<noteq> ptr_plus s j" "ptr_plus d k \<noteq> ptr_plus d j"
          using ne False by (auto simp: ptr_plus_def)
        then show ?thesis using t(4) dn[OF kj] by simp
      qed
    next
      fix k assume k: "k < Suc j"
      show "mem hp (ptr_plus s k) \<noteq> Raw"
      proof (cases "k = j")
        case True
        then show ?thesis using t(1) src0 by simp
      next
        case False
        then show ?thesis using dn[of k] k by simp
      qed
    next
      fix q
      assume a: "\<not> in_range q s (Suc j)" and b: "\<not> in_range q d (Suc j)"
      then have "q \<noteq> ptr_plus s j" "q \<noteq> ptr_plus d j" "\<not> in_range q s j" "\<not> in_range q d j"
        by (simp_all add: in_range_Suc)
      then show "mem h' q = mem hp q" using t(4) fr by simp
    qed
  qed
  then show ?thesis by simp
qed

lemma for_n_shift_left:
  assumes run: "for_n (\<lambda>k. f (ptr_plus (b, Suc p) k) (ptr_plus (b, p) k)) 0 n hp = Inr hp'"
    and f: "transfers f"
  shows "table hp' = table hp \<and>
         (\<forall>k<n. mem hp' (b, p + k) = mem hp (b, Suc (p + k))) \<and>
         (\<forall>q. \<not> in_range q (b, p) (Suc n) \<longrightarrow> mem hp' q = mem hp q)"
proof -
  let ?P = "\<lambda>j h. table h = table hp \<and>
         (\<forall>k<j. mem h (b, p + k) = mem hp (b, Suc (p + k))) \<and>
         (\<forall>q. \<not> in_range q (b, p) (Suc j) \<longrightarrow> mem h q = mem hp q)"
  have "?P (0 + n) hp'"
  proof (rule for_n_Inr[OF run, where P = ?P])
    show "?P 0 hp" by simp
  next
    fix j h h'
    assume j: "0 \<le> j" "j < 0 + n" and P: "?P j h"
      and st: "f (ptr_plus (b, Suc p) j) (ptr_plus (b, p) j) h = Inr h'"
    have sd: "ptr_plus (b, Suc p) j \<noteq> ptr_plus (b, p) j" by (simp add: ptr_plus_def)
    note t = transfersD[OF f st sd]
    from P have fr: "\<And>q. \<not> in_range q (b, p) (Suc j) \<Longrightarrow> mem h q = mem hp q"
      by blast
    from P have dn: "\<And>k. k < j \<Longrightarrow> mem h (b, p + k) = mem hp (b, Suc (p + k))"
      by blast
    have src0: "mem h (ptr_plus (b, Suc p) j) = mem hp (ptr_plus (b, Suc p) j)"
      by (intro fr) (simp add: in_range_def ptr_plus_def)
    show "?P (Suc j) h'"
    proof (intro conjI allI impI)
      show "table h' = table hp" using t(5) P by simp
    next
      fix k assume k: "k < Suc j"
      show "mem h' (b, p + k) = mem hp (b, Suc (p + k))"
      proof (cases "k = j")
        case True
        then show ?thesis using t(2) src0 by (simp add: ptr_plus_def)
      next
        case False
        then have kj: "k < j" using k by simp
        have "(b, p + k) \<noteq> ptr_plus (b, Suc p) j" "(b, p + k) \<noteq> ptr_plus (b, p) j"
          using kj by (auto simp: ptr_plus_def)
        then show ?thesis using t(4) dn[OF kj] by simp
      qed
    next
      fix q
      assume a: "\<not> in_range q (b, p) (Suc (Suc j))"
      then have "q \<noteq> ptr_plus (b, Suc p) j" "q \<noteq> ptr_plus (b, p) j" "\<not> in_range q (b, p) (Suc j)"
        by (auto simp: in_range_def ptr_plus_def)
      then show "mem h' q = mem hp q" using t(4) fr by simp
    qed
  qed
  then show ?thesis by simp
qed

lemma for_n_shift_right:
  assumes run: "for_n (\<lambda>k. f (ptr_minus (b, m) (Suc k)) (ptr_minus (b, Suc m) (Suc k))) 0 n hp = Inr hp'"
    and f: "transfers f" and nm: "n \<le> m"
  shows "table hp' = table hp \<and>
         (\<forall>k<n. mem hp' (b, m - k) = mem hp (b, m - Suc k)) \<and>
         (\<forall>q. \<not> (fst q = b \<and> m - n \<le> snd q \<and> snd q \<le> m) \<longrightarrow> mem hp' q = mem hp q)"
proof -
  let ?P = "\<lambda>j h. table h = table hp \<and>
         (\<forall>k<j. mem h (b, m - k) = mem hp (b, m - Suc k)) \<and>
         (\<forall>q. \<not> (fst q = b \<and> m - j \<le> snd q \<and> snd q \<le> m) \<longrightarrow> mem h q = mem hp q)"
  have "?P (0 + n) hp'"
  proof (rule for_n_Inr[OF run, where P = ?P])
    show "?P 0 hp" by simp
  next
    fix j h h'
    assume j: "0 \<le> j" "j < 0 + n" and P: "?P j h"
      and st: "f (ptr_minus (b, m) (Suc j)) (ptr_minus (b, Suc m) (Suc j)) h = Inr h'"
    have jm: "j < m" using j nm by simp
    have src: "ptr_minus (b, m) (Suc j) = (b, m - Suc j)"
      and dst: "ptr_minus (b, Suc m) (Suc j) = (b, m - j)"
      by (simp_all add: ptr_minus_def)
    have sd: "(b, m - Suc j) \<noteq> (b, m - j)" using jm by simp
    note t = transfersD[OF f st[unfolded src dst] sd]
    from P have fr: "\<And>q. \<not> (fst q = b \<and> m - j \<le> snd q \<and> snd q \<le> m) \<Longrightarrow> mem h q = mem hp q"
      by blast
    from P have dn: "\<And>k. k < j \<Longrightarrow> mem h (b, m - k) = mem hp (b, m - Suc k)"
      by blast
    have src0: "mem h (b, m - Suc j) = mem hp (b, m - Suc j)"
      using jm by (intro fr) simp
    show "?P (Suc j) h'"
    proof (intro conjI allI impI)
      show "table h' = table hp" using t(5) P by simp
    next
      fix k assume k: "k < Suc j"
      show "mem h' (b, m - k) = mem hp (b, m - Suc k)"
      proof (cases "k = j")
        case True
        then show ?thesis using t(2) src0 by simp
      next
        case False
        then have kj: "k < j" using k by simp
        have "(b, m - k) \<noteq> (b, m - Suc j)" "(b, m - k) \<noteq> (b, m - j)"
          using kj jm by auto
        then show ?thesis using t(4) dn[OF kj] by simp
      qed
    next
      fix q
      assume a: "\<not> (fst q = b \<and> m - Suc j \<le> snd q \<and> snd q \<le> m)"
      then have "q \<noteq> (b, m - Suc j)" "q \<noteq> (b, m - j)" "\<not> (fst q = b \<and> m - j \<le> snd q \<and> snd q \<le> m)"
        by auto
      then show "mem h' q = mem hp q" using t(4) fr by simp
    qed
  qed
  then show ?thesis by simp
qed

lemma elems_holds: "holds hp this xs \<Longrightarrow> elems hp this = map Live xs"
  by (auto simp: holds_def elems_def intro!: nth_equalityI)

lemma nth_erase:
  "i < length xs - 1 \<Longrightarrow> p < length xs \<Longrightarrow>
   (take p xs @ drop (Suc p) xs) ! i = (if i < p then xs ! i else xs ! Suc i)"
  by (auto simp: nth_append min_def)

lemma std_move_Inr:
  assumes "std_move T (b, Suc p) (b, n) (b, p) hp = (Inr u, hp')"
  shows "for_n (\<lambda>k. move_assign T (ptr_plus (b, Suc p) k) (ptr_plus (b, p) k)) 0 (n - Suc p) hp = Inr hp' \<and> Suc p \<le> n"
  using assms by (auto simp: std_move_def distance_def ptr_le_def split: if_splits sum.splits)

lemma std_copy_Inr:
  assumes "std_copy T (b, Suc p) (b, n) (b, p) hp = (Inr u, hp')"
  shows "for_n (\<lambda>k. copy_assign T (ptr_plus (b, Suc p) k) (ptr_plus (b, p) k)) 0 (n - Suc p) hp = Inr hp' \<and> Suc p \<le> n"
  using assms by (auto simp: std_copy_def copy_n_def distance_def ptr_le_def split: if_splits sum.splits)

lemma Erase_Inr:
  assumes h: "holds hp this xs"
    and run: "Erase T pos (hp, this) = (Inr r, hp', this')"
  shows "\<exists>p. pos = (buffer_m (data_m this), p) \<and> p < length xs \<and> r = pos \<and>
             this' = this\<lparr>size_m := length xs - 1\<rparr> \<and>
             holds hp' this' (take p xs @ drop (Suc p) xs)"
proof -
  let ?b = "buffer_m (data_m this)"
  let ?n = "length xs"
  from h have sz: "size_m this = ?n" and cap: "?n \<le> capacity_m (data_m this)"
    and bt: "?b \<le> length (table hp)"
    and live: "\<And>i. i < ?n \<Longrightarrow> mem hp (?b, i) = Live (xs ! i)"
    by (auto simp: holds_def)
  have e: "end_v this = Inr (?b, ?n)"
    using sz cap by (simp add: end_v_def RawMemory_plus_def)
  obtain p where pos: "pos = (?b, p)" and pn: "p \<le> ?n"
    using run e by (cases pos) (auto simp: Erase_def begin_v_def GetAddress_def ptr_le_def split: if_splits)
  let ?shift = "if use_move T then std_move T (?b, Suc p) (?b, ?n) (?b, p) hp
                else std_copy T (?b, Suc p) (?b, ?n) (?b, p) hp"
  from run e pos pn obtain u hp1 where sh: "?shift = (Inr u, hp1)"
    and r: "r = (?b, p)" and hp': "hp' = destroy_at (?b, ?n - 1) hp1"
    and this': "this' = this\<lparr>size_m := ?n - 1\<rparr>"
    by (auto simp: Erase_def begin_v_def GetAddress_def ptr_le_def ptr_plus_def ptr_minus_def sz
             split: if_splits prod.splits sum.splits)
  have "\<exists>f. transfers f \<and> for_n (\<lambda>k. f (ptr_plus (?b, Suc p) k) (ptr_plus (?b, p) k)) 0 (?n - Suc p) hp = Inr hp1 \<and> Suc p \<le> ?n"
  proof (cases "use_move T")
    case True
    with sh std_move_Inr[of T ?b p ?n hp u hp1] transfers_move_assign[of T] show ?thesis by auto
  next
    case False
    with sh std_copy_Inr[of T ?b p ?n hp u hp1] transfers_copy_assign[of T] show ?thesis by auto
  qed
  then obtain f where f: "transfers f"
    and loop: "for_n (\<lambda>k. f (ptr_plus (?b, Suc p) k) (ptr_plus (?b, p) k)) 0 (?n - Suc p) hp = Inr hp1"
    and pn': "Suc p \<le> ?n" by blast
  note sl = for_n_shift_left[OF loop f]
  from sl have tb: "table hp1 = table hp" by simp
  from sl have moved: "\<And>k. k < ?n - Suc p \<Longrightarrow> mem hp1 (?b, p + k) = mem hp (?b, Suc (p + k))" by blast
  from sl have fr: "\<And>q. \<not> in_range q (?b, p) (Suc (?n - Suc p)) \<Longrightarrow> mem hp1 q = mem hp q" by blast
  have "holds hp' this' (take p xs @ drop (Suc p) xs)"
    unfolding holds_def
  proof (intro conjI allI impI)
    show "size_m this' = length (take p xs @ drop (Suc p) xs)" using this' pn' by simp
    show "length (take p xs @ drop (Suc p) xs) \<le> capacity_m (data_m this')" using this' cap pn' by simp
    show "buffer_m (data_m this') \<le> length (table hp')" using this' hp' tb bt by simp
  next
    fix i assume "i < length (take p xs @ drop (Suc p) xs)"
    then have i: "i < ?n - 1" using pn' by simp
    have ne: "(?b, i) \<noteq> (?b, ?n - 1)" using i by simp
    have "mem hp1 (?b, i) = Live ((take p xs @ drop (Suc p) xs) ! i)"
    proof (cases "i < p")
      case True
      then have "\<not> in_range (?b, i) (?b, p) (Suc (?n - Suc p))" by (simp add: in_range_def)
      then show ?thesis using fr live[of i] i True nth_erase[of i xs p] pn' by simp
    next
      case False
      then have "i - p < ?n - Suc p" "p + (i - p) = i" using i by simp_all
      then show ?thesis using moved[of "i - p"] live[of "Suc i"] i False nth_erase[of i xs p] pn' by simp
    qed
    then show "mem hp' (buffer_m (data_m this'), i) = Live ((take p xs @ drop (Suc p) xs) ! i)"
      using hp' this' ne by simp
  qed
  then show ?thesis using pos pn' r this' by auto
qed

lemma RawMemory_ctor_Inr:
  assumes "RawMemory_ctor T c hp = Inr (nd, hp1)" and "c \<noteq> 0"
  shows "nd = \<lparr>buffer_m = Suc (length (table hp)), capacity_m = c\<rparr> \<and>
         table hp1 = table hp @ [Some c] \<and>
         (\<forall>q. mem hp1 q = (if fst q = Suc (length (table hp)) then Raw else mem hp q))"
  using assms
  by (auto simp: RawMemory_ctor_def Allocate_def Let_def split: if_splits sum.splits)

lemma relocate_n_Inr:
  assumes run: "(if use_move T then uninitialized_move_n T s n d hp
                 else uninitialized_copy_n T s n d hp) = (Inr u, hp')"
    and ne: "fst s \<noteq> fst d"
  shows "table hp' = table hp \<and>
         (\<forall>k<n. mem hp' (ptr_plus d k) = mem hp (ptr_plus s k) \<and> mem hp (ptr_plus s k) \<noteq> Raw) \<and>
         (\<forall>q. \<not> in_range q s n \<longrightarrow> \<not> in_range q d n \<longrightarrow> mem hp' q = mem hp q)"
proof (cases "use_move T")
  case True
  with run have "for_n (\<lambda>k. move_construct T (ptr_plus s k) (ptr_plus d k)) 0 n hp = Inr hp'"
    by (auto simp: uninitialized_move_n_def split: sum.splits)
  from for_n_relocate[OF this transfers_move_construct ne] show ?thesis .
next
  case False
  with run have "for_n (\<lambda>k. copy_construct T (ptr_plus s k) (ptr_plus d k)) 0 n hp = Inr hp'"
    by (auto simp: uninitialized_copy_n_def split: sum.splits)
  from for_n_relocate[OF this transfers_copy_construct ne] show ?thesis .
qed

lemma EmplaceBack_grow_InrE:
  assumes "EmplaceBack T mk (hp, this) = (Inr r, hp', this')"
    and "size_m this = Capacity_raw (data_m this)"
  obtains nd hp1 x u hp3 where
    "RawMemory_ctor T (if size_m this = 0 then 1 else size_m this * 2) hp = Inr (nd, hp1)"
    "mk hp1 = Inr x"
    "(if use_move T
      then uninitialized_move_n T (GetAddress (data_m this)) (size_m this) (GetAddress nd)
             (construct_at (buffer_m nd, size_m this) x hp1)
      else uninitialized_copy_n T (GetAddress (data_m this)) (size_m this) (GetAddress nd)
             (construct_at (buffer_m nd, size_m this) x hp1)) = (Inr u, hp3)"
    "r = (buffer_m nd, size_m this)"
    "hp' = RawMemory_dtor (data_m this) (destroy_n (GetAddress (data_m this)) (size_m this) hp3)"
    "this' = \<lparr>data_m = nd, size_m = size_m this + 1\<rparr>"
  using assms unfolding EmplaceBack_def Let_def RawMemory_Swap_eq RawMemory_plus_def placement_new_def
  by (simp split: sum.splits prod.splits if_splits)

lemma EmplaceBack_fit_InrE:
  assumes "EmplaceBack T mk (hp, this) = (Inr r, hp', this')"
    and "size_m this \<noteq> Capacity_raw (data_m this)"
  obtains x where
    "mk hp = Inr x" "size_m this \<le> capacity_m (data_m this)"
    "r = (buffer_m (data_m this), size_m this)"
    "hp' = construct_at (buffer_m (data_m this), size_m this) x hp"
    "this' = this\<lparr>size_m := size_m this + 1\<rparr>"
  using assms unfolding EmplaceBack_def Let_def RawMemory_plus_def placement_new_def
  by (simp split: sum.splits prod.splits if_splits)

lemma EmplaceBack_Inr:
  assumes h: "holds hp this xs"
    and run: "EmplaceBack T mk (hp, this) = (Inr r, hp', this')"
  shows "\<exists>x h. mk h = Inr x \<and> holds hp' this' (xs @ [x]) \<and>
             r = (buffer_m (data_m this'), length xs)"
proof -
  let ?b = "buffer_m (data_m this)"
  let ?n = "length xs"
  from h have sz: "size_m this = ?n" and cap: "?n \<le> capacity_m (data_m this)"
    and bt: "?b \<le> length (table hp)"
    and live: "\<And>i. i < ?n \<Longrightarrow> mem hp (?b, i) = Live (xs ! i)"
    by (auto simp: holds_def)
  show ?thesis
  proof (cases "size_m this = Capacity_raw (data_m this)")
    case False
    from run False obtain x where mk: "mk hp = Inr x"
      and r: "r = (?b, size_m this)"
      and hp': "hp' = construct_at (?b, size_m this) x hp"
      and this': "this' = this\<lparr>size_m := size_m this + 1\<rparr>"
      by (rule EmplaceBack_fit_InrE)
    have "holds hp' this' (xs @ [x])"
      using False sz cap bt live hp' this'
      by (auto simp: holds_def Capacity_raw_def nth_append)
    then show ?thesis using mk r this' sz by auto
  next
    case True
    let ?c = "if size_m this = 0 then 1 else size_m this * 2"
    let ?h = "Suc (length (table hp))"
    from run True obtain nd hp1 x u hp3 where
      ctor: "RawMemory_ctor T ?c hp = Inr (nd, hp1)" and mk: "mk hp1 = Inr x"
      and rel: "(if use_move T
          then uninitialized_move_n T (GetAddress (data_m this)) (size_m this) (GetAddress nd)
                 (construct_at (buffer_m nd, size_m this) x hp1)
          else uninitialized_copy_n T (GetAddress (data_m this)) (size_m this) (GetAddress nd)
                 (construct_at (buffer_m nd, size_m this) x hp1)) = (Inr u, hp3)"
      and r: "r = (buffer_m nd, size_m this)"
      and hp': "hp' = RawMemory_dtor (data_m this) (destroy_n (GetAddress (data_m this)) (size_m this) hp3)"
      and this': "this' = \<lparr>data_m = nd, size_m = size_m this + 1\<rparr>"
      by (rule EmplaceBack_grow_InrE)
    have c0: "?c \<noteq> 0" by simp
    note a = RawMemory_ctor_Inr[OF ctor c0]
    from a have nd: "buffer_m nd = ?h" "capacity_m nd = ?c" by simp_all
    from a have t1: "table hp1 = table hp @ [Some ?c]" by simp
    from a have m1: "\<And>q. mem hp1 q = (if fst q = ?h then Raw else mem hp q)" by blast
    let ?hp2 = "construct_at (?h, ?n) x hp1"
    have ne: "fst (GetAddress (data_m this)) \<noteq> fst (GetAddress nd)"
      using bt nd by (simp add: GetAddress_def)
    note rl = relocate_n_Inr[OF rel ne, unfolded GetAddress_def nd sz]
    from rl have t3: "table hp3 = table ?hp2" by blast
    from rl have "\<And>k. k < ?n \<Longrightarrow> mem hp3 (ptr_plus (?h, 0) k) = mem ?hp2 (ptr_plus (?b, 0) k)"
      by blast
    then have got: "\<And>k. k < ?n \<Longrightarrow> mem hp3 (?h, k) = mem ?hp2 (?b, k)"
      by (simp add: ptr_plus_def)
    from rl have fr: "\<And>q. \<not> in_range q (?b, 0) ?n \<Longrightarrow> \<not> in_range q (?h, 0) ?n \<Longrightarrow> mem hp3 q = mem ?hp2 q"
      by blast
    have last: "mem hp3 (?h, ?n) = Live x"
      using fr[of "(?h, ?n)"] bt by (simp add: in_range_def)
    have "holds hp' this' (xs @ [x])"
      unfolding holds_def
    proof (intro conjI allI impI)
      show "size_m this' = length (xs @ [x])" using this' sz by simp
      show "length (xs @ [x]) \<le> capacity_m (data_m this')" using this' nd sz by (cases xs) auto
      show "buffer_m (data_m this') \<le> length (table hp')"
        using this' nd hp' t3 t1 by (simp add: RawMemory_dtor_def)
    next
      fix i assume "i < length (xs @ [x])"
      then have i: "i \<le> ?n" by simp
      have "mem hp3 (?h, i) = Live ((xs @ [x]) ! i)"
      proof (cases "i = ?n")
        case True
        then show ?thesis using last by simp
      next
        case False
        then have "i < ?n" using i by simp
        then show ?thesis using got[of i] m1[of "(?b, i)"] live[of i] bt
          by (simp add: nth_append)
      qed
      then show "mem hp' (buffer_m (data_m this'), i) = Live ((xs @ [x]) ! i)"
        using hp' this' nd bt by (simp add: RawMemory_dtor_def mem_destroy_n GetAddress_def)
    qed
    then show ?thesis using mk r this' nd sz by auto
  qed
qed

lemma Emplace_range:
  assumes "Emplace T pos mk (hp, this) = (Inr r, hp', this')"
  shows "size_m this \<le> capacity_m (data_m this) \<and> fst pos = buffer_m (data_m this) \<and>
         snd pos \<le> size_m this"
proof -
  have "end_v this = Inr (buffer_m (data_m this), size_m this) \<and> size_m this \<le> capacity_m (data_m this)"
    using assms unfolding Emplace_def end_v_def RawMemory_plus_def
    by (simp split: if_splits)
  then show ?thesis
    using assms unfolding Emplace_def begin_v_def GetAddress_def ptr_le_def
    by (simp split: if_splits)
qed

lemma Emplace_at_end:
  assumes "size_m this \<le> capacity_m (data_m this)"
  shows "Emplace T (buffer_m (data_m this), size_m this) mk (hp, this) = EmplaceBack T mk (hp, this)"
  using assms
  by (simp add: Emplace_def end_v_def RawMemory_plus_def begin_v_def GetAddress_def ptr_le_def)

lemma Emplace_grow_InrE:
  assumes run: "Emplace T pos mk (hp, this) = (Inr r, hp', this')"
    and grow: "size_m this = Capacity_raw (data_m this)"
    and ne: "pos \<noteq> (buffer_m (data_m this), size_m this)"
  obtains nd hp1 x u1 hp3 u2 hp5 where
    "RawMemory_ctor T (if size_m this = 0 then 1 else size_m this * 2) hp = Inr (nd, hp1)"
    "mk hp1 = Inr x"
    "(if use_move T
      then uninitialized_move T (begin_v this) (ptr_plus (begin_v this) (snd pos))
             (GetAddress nd) (construct_at (buffer_m nd, snd pos) x hp1)
      else uninitialized_copy T (begin_v this) (ptr_plus (begin_v this) (snd pos))
             (GetAddress nd) (construct_at (buffer_m nd, snd pos) x hp1)) = (Inr u1, hp3)"
    "(if use_move T
      then uninitialized_move T (ptr_plus (begin_v this) (snd pos))
             (buffer_m (data_m this), size_m this) (ptr_plus (buffer_m nd, snd pos) 1) hp3
      else uninitialized_copy T (ptr_plus (begin_v this) (snd pos))
             (buffer_m (data_m this), size_m this) (ptr_plus (buffer_m nd, snd pos) 1) hp3) = (Inr u2, hp5)"
    "r = (buffer_m nd, snd pos)"
    "hp' = RawMemory_dtor (data_m this) (destroy_n (GetAddress (data_m this)) (size_m this) hp5)"
    "this' = \<lparr>data_m = nd, size_m = size_m this + 1\<rparr>"
proof -
  note rg = Emplace_range[OF run]
  have e: "end_v this = Inr (buffer_m (data_m this), size_m this)"
    using rg by (simp add: end_v_def RawMemory_plus_def)
  have r1: "\<not> \<not> (ptr_le (begin_v this) pos \<and> ptr_le pos (buffer_m (data_m this), size_m this))"
    using rg by (simp add: ptr_le_def begin_v_def GetAddress_def)
  have b: "snd (begin_v this) = 0" by (simp add: begin_v_def GetAddress_def)
  show ?thesis
    using run that
    apply (simp only: Emplace_def e sum.case prod.case Let_def if_not_P[OF r1] if_not_P[OF ne]
             if_P[OF grow] RawMemory_Swap_eq b diff_zero)
    apply (simp add: RawMemory_plus_def placement_new_def split: sum.splits prod.splits if_splits)
    done
qed

lemma Emplace_fit_Inr:
  assumes run: "Emplace T pos mk (hp, this) = (Inr r, hp', this')"
    and fit: "size_m this \<noteq> Capacity_raw (data_m this)"
    and ne: "pos \<noteq> (buffer_m (data_m this), size_m this)"
  shows "\<exists>hp1 x u hp2. 
    move_construct T (ptr_minus (buffer_m (data_m this), size_m this) 1)
       (buffer_m (data_m this), size_m this) hp = Inr hp1 \<and>
    mk hp1 = Inr x \<and>
    move_backward T (ptr_plus (begin_v this) (snd pos))
       (ptr_minus (buffer_m (data_m this), size_m this) 1)
       (buffer_m (data_m this), size_m this) hp1 = (Inr u, hp2) \<and>
    move_assign_from T x (buffer_m (data_m this), snd pos) hp2 = Inr hp' \<and>
    r = (buffer_m (data_m this), snd pos) \<and>
    this' = this\<lparr>size_m := size_m this + 1\<rparr>"
proof -
  note rg = Emplace_range[OF run]
  have e: "end_v this = Inr (buffer_m (data_m this), size_m this)"
    using rg by (simp add: end_v_def RawMemory_plus_def)
  have r1: "\<not> \<not> (ptr_le (begin_v this) pos \<and> ptr_le pos (buffer_m (data_m this), size_m this))"
    using rg by (simp add: ptr_le_def begin_v_def GetAddress_def)
  have b: "snd (begin_v this) = 0" by (simp add: begin_v_def GetAddress_def)
  have le: "snd pos \<le> capacity_m (data_m this)" using rg by simp
  have pl: "RawMemory_plus (data_m this) (snd pos) = Inr (buffer_m (data_m this), snd pos)"
    using le by (simp add: RawMemory_plus_def)
  show ?thesis
    using run
    apply (simp only: Emplace_def e sum.case prod.case Let_def if_not_P[OF r1] if_not_P[OF ne]
             if_not_P[OF fit] b diff_zero pl)
    apply (simp split: sum.splits prod.splits)
    done
qed

lemma nth_insert_at:
  "p \<le> length xs \<Longrightarrow> i \<le> length xs \<Longrightarrow>
   (take p xs @ x # drop p xs) ! i = (if i < p then xs ! i else if i = p then x else xs ! (i - 1))"
proof -
  assume p: "p \<le> length xs" and i: "i \<le> length xs"
  show ?thesis
  proof (cases "i < p")
    case True
    then show ?thesis using p by (simp add: nth_append)
  next
    case False
    then obtain k where k: "i = p + k" by (metis le_add_diff_inverse not_less)
    show ?thesis
    proof (cases k)
      case 0
      then show ?thesis using k p by (simp add: nth_append)
    next
      case (Suc k')
      then show ?thesis using k p i by (simp add: nth_append)
    qed
  qed
qed

lemma relocate_Inr:
  assumes run: "(if use_move T then uninitialized_move T (b, i) (b, j) d hp
                 else uninitialized_copy T (b, i) (b, j) d hp) = (Inr u, hp')"
    and ne: "b \<noteq> fst d"
  shows "i \<le> j \<and> table hp' = table hp \<and>
         (\<forall>k<j - i. mem hp' (ptr_plus d k) = mem hp (b, i + k) \<and> mem hp (b, i + k) \<noteq> Raw) \<and>
         (\<forall>q. \<not> in_range q (b, i) (j - i) \<longrightarrow> \<not> in_range q d (j - i) \<longrightarrow> mem hp' q = mem hp q)"
proof -
  from run have ij: "i \<le> j"
    by (auto simp: uninitialized_move_def uninitialized_copy_def distance_def ptr_le_def
             split: if_splits)
  then have "distance (b, i) (b, j) = Inr (j - i)"
    by (simp add: distance_def ptr_le_def)
  with run have "(if use_move T then uninitialized_move_n T (b, i) (j - i) d hp
                   else uninitialized_copy_n T (b, i) (j - i) d hp) = (Inr u, hp')"
    by (simp add: uninitialized_move_def uninitialized_copy_def split: if_splits)
  from relocate_n_Inr[OF this] ne ij show ?thesis
    by (simp add: ptr_plus_def)
qed

lemma move_backward_Inr:
  assumes run: "move_backward T (b, p) (b, m) (b, Suc m) hp = (Inr u, hp')"
  shows "p \<le> m \<and> table hp' = table hp \<and>
         (\<forall>k<m - p. mem hp' (b, m - k) = mem hp (b, m - Suc k)) \<and>
         (\<forall>q. \<not> (fst q = b \<and> p \<le> snd q \<and> snd q \<le> m) \<longrightarrow> mem hp' q = mem hp q)"
proof -
  from run have pm: "p \<le> m"
    by (auto simp: move_backward_def distance_def ptr_le_def split: if_splits)
  then have "distance (b, p) (b, m) = Inr (m - p)"
    by (simp add: distance_def ptr_le_def)
  with run have loop: "for_n (\<lambda>k. move_assign T (ptr_minus (b, m) (Suc k)) (ptr_minus (b, Suc m) (Suc k)))
                    0 (m - p) hp = Inr hp'"
    by (simp add: move_backward_def split: sum.splits prod.splits)
  have "m - p \<le> m" by simp
  from for_n_shift_right[OF loop transfers_move_assign this] pm show ?thesis
    by simp
qed

lemma move_assign_from_Inr:
  assumes "move_assign_from T x dst hp = Inr hp'"
  shows "hp' = construct_at dst x hp"
  using assms by (auto simp: move_assign_from_def split: slot.splits if_splits)

lemma Emplace_Inr:
  assumes h: "holds hp this xs"
    and run: "Emplace T pos mk (hp, this) = (Inr r, hp', this')"
  shows "\<exists>p x. pos = (buffer_m (data_m this), p) \<and> p \<le> length xs \<and> (\<exists>h. mk h = Inr x) \<and>
               holds hp' this' (take p xs @ x # drop p xs) \<and>
               r = (buffer_m (data_m this'), p)"
proof -
  let ?b = "buffer_m (data_m this)"
  let ?n = "length xs"
  from h have sz: "size_m this = ?n" and cap: "?n \<le> capacity_m (data_m this)"
    and bt: "?b \<le> length (table hp)"
    and live: "\<And>i. i < ?n \<Longrightarrow> mem hp (?b, i) = Live (xs ! i)"
    by (auto simp: holds_def)
  obtain p where pos: "pos = (?b, p)" and pn: "p \<le> ?n"
    using Emplace_range[OF run] sz by (cases pos) auto
  show ?thesis
  proof (cases "p = ?n")
    case True
    have "Emplace T pos mk (hp, this) = EmplaceBack T mk (hp, this)"
      using Emplace_at_end[of this T mk hp] cap sz pos True by simp
    with run have "EmplaceBack T mk (hp, this) = (Inr r, hp', this')" by simp
    from EmplaceBack_Inr[OF h this] pos True show ?thesis by auto
  next
    case False
    then have plt: "p < ?n" using pn by simp
    have ne: "pos \<noteq> (?b, size_m this)" using pos False sz by simp
    have bg: "begin_v this = (?b, 0)" by (simp add: begin_v_def GetAddress_def)
    show ?thesis
    proof (cases "size_m this = Capacity_raw (data_m this)")
      case True
      let ?c = "if size_m this = 0 then 1 else size_m this * 2"
      let ?h = "Suc (length (table hp))"
      from run True ne obtain nd hp1 x u1 hp3 u2 hp5 where
        ctor: "RawMemory_ctor T ?c hp = Inr (nd, hp1)" and mk: "mk hp1 = Inr x"
        and rel1: "(if use_move T
            then uninitialized_move T (begin_v this) (ptr_plus (begin_v this) (snd pos))
                   (GetAddress nd) (construct_at (buffer_m nd, snd pos) x hp1)
            else uninitialized_copy T (begin_v this) (ptr_plus (begin_v this) (snd pos))
                   (GetAddress nd) (construct_at (buffer_m nd, snd pos) x hp1)) = (Inr u1, hp3)"
        and rel2: "(if use_move T
            then uninitialized_move T (ptr_plus (begin_v this) (snd pos))
                   (buffer_m (data_m this), size_m this) (ptr_plus (buffer_m nd, snd pos) 1) hp3
            else uninitialized_copy T (ptr_plus (begin_v this) (snd pos))
                   (buffer_m (data_m this), size_m this) (ptr_plus (buffer_m nd, snd pos) 1) hp3)
            = (Inr u2, hp5)"
        and r: "r = (buffer_m nd, snd pos)"
        and hp': "hp' = RawMemory_dtor (data_m this) (destroy_n (GetAddress (data_m this)) (size_m this) hp5)"
        and this': "this' = \<lparr>data_m = nd, size_m = size_m this + 1\<rparr>"
        by (rule Emplace_grow_InrE)
      have c0: "?c \<noteq> 0" by simp
      note a = RawMemory_ctor_Inr[OF ctor c0]
      from a have nd: "buffer_m nd = ?h" "capacity_m nd = ?c" by simp_all
      from a have t1: "table hp1 = table hp @ [Some ?c]" by simp
      from a have m1: "\<And>q. mem hp1 q = (if fst q = ?h then Raw else mem hp q)" by blast
      let ?hp2 = "construct_at (?h, p) x hp1"
      have bh: "?b \<noteq> ?h" using bt by simp
      have rel1': "(if use_move T then uninitialized_move T (?b, 0) (?b, p) (?h, 0) ?hp2
                    else uninitialized_copy T (?b, 0) (?b, p) (?h, 0) ?hp2) = (Inr u1, hp3)"
        using rel1 unfolding bg pos nd ptr_plus_def GetAddress_def fst_conv snd_conv add_0 .
      have rel2': "(if use_move T then uninitialized_move T (?b, p) (?b, ?n) (?h, p + 1) hp3
                    else uninitialized_copy T (?b, p) (?b, ?n) (?h, p + 1) hp3) = (Inr u2, hp5)"
        using rel2 unfolding bg pos nd ptr_plus_def sz fst_conv snd_conv add_0 .
      have bh': "?b \<noteq> fst (?h, 0::nat)" "?b \<noteq> fst (?h, p + 1)" using bh by simp_all
      note q1 = relocate_Inr[OF rel1' bh'(1)]
      note q2 = relocate_Inr[OF rel2' bh'(2)]
      from q1 have t3: "table hp3 = table ?hp2" by blast
      from q1 have "\<And>k. k < p - 0 \<Longrightarrow> mem hp3 (ptr_plus (?h, 0) k) = mem ?hp2 (?b, 0 + k)" by blast
      then have got1: "\<And>k. k < p \<Longrightarrow> mem hp3 (?h, k) = mem ?hp2 (?b, k)"
        by (simp add: ptr_plus_def)
      from q1 have fr1: "\<And>q. \<not> in_range q (?b, 0) (p - 0) \<Longrightarrow> \<not> in_range q (?h, 0) (p - 0) \<Longrightarrow> mem hp3 q = mem ?hp2 q"
        by blast
      from q2 have t5: "table hp5 = table hp3" by blast
      from q2 have "\<And>k. k < ?n - p \<Longrightarrow> mem hp5 (ptr_plus (?h, p + 1) k) = mem hp3 (?b, p + k)" by blast
      then have got2: "\<And>k. k < ?n - p \<Longrightarrow> mem hp5 (?h, Suc p + k) = mem hp3 (?b, p + k)"
        by (simp add: ptr_plus_def)
      from q2 have fr2: "\<And>q. \<not> in_range q (?b, p) (?n - p) \<Longrightarrow> \<not> in_range q (?h, p + 1) (?n - p) \<Longrightarrow> mem hp5 q = mem hp3 q"
        by blast
      have slot: "\<And>i. i \<le> ?n \<Longrightarrow> mem hp5 (?h, i) = Live ((take p xs @ x # drop p xs) ! i)"
      proof -
        fix i assume i: "i \<le> ?n"
        consider (lo) "i < p" | (eq) "i = p" | (hi) "p < i" by linarith
        then show "mem hp5 (?h, i) = Live ((take p xs @ x # drop p xs) ! i)"
        proof cases
          case lo
          have "mem hp5 (?h, i) = mem hp3 (?h, i)"
            using lo bh by (intro fr2) (simp_all add: in_range_def)
          also have "\<dots> = mem ?hp2 (?b, i)" using got1[OF lo] .
          also have "\<dots> = Live (xs ! i)" using m1[of "(?b, i)"] live[of i] lo plt bh by simp
          finally show ?thesis using nth_insert_at[OF pn i, of x] lo by simp
        next
          case eq
          have "mem hp5 (?h, i) = mem hp3 (?h, i)"
            using eq bh by (intro fr2) (simp_all add: in_range_def)
          also have "\<dots> = mem ?hp2 (?h, i)"
            using eq bh by (intro fr1) (simp_all add: in_range_def)
          also have "\<dots> = Live x" using eq by simp
          finally show ?thesis using nth_insert_at[OF pn i, of x] eq by simp
        next
          case hi
          define k where "k = i - Suc p"
          have k: "i = Suc p + k" "k < ?n - p"
            using hi i by (simp_all add: k_def)
          have "mem hp5 (?h, i) = mem hp3 (?b, p + k)" using got2[OF k(2)] k(1) by simp
          also have "\<dots> = mem ?hp2 (?b, p + k)"
            using bh by (intro fr1) (simp_all add: in_range_def)
          also have "\<dots> = Live (xs ! (p + k))"
            using m1[of "(?b, p + k)"] live[of "p + k"] k(2) bh by simp
          finally show ?thesis using nth_insert_at[OF pn i, of x] hi k(1) by simp
        qed
      qed
      have "holds hp' this' (take p xs @ x # drop p xs)"
        unfolding holds_def
      proof (intro conjI allI impI)
        show "size_m this' = length (take p xs @ x # drop p xs)" using this' sz pn by simp
        show "length (take p xs @ x # drop p xs) \<le> capacity_m (data_m this')"
          using this' nd sz pn plt by simp
        show "buffer_m (data_m this') \<le> length (table hp')"
          using this' nd hp' t5 t3 t1 by (simp add: RawMemory_dtor_def)
      next
        fix i assume "i < length (take p xs @ x # drop p xs)"
        then have i: "i \<le> ?n" using pn by simp
        show "mem hp' (buffer_m (data_m this'), i) = Live ((take p xs @ x # drop p xs) ! i)"
          using slot[OF i] hp' this' nd bh by (simp add: RawMemory_dtor_def mem_destroy_n GetAddress_def)
      qed
      then show ?thesis using pos pn mk r this' nd by auto
    next
      case fit: False
      from Emplace_fit_Inr[OF run fit ne] obtain hp1 x u hp2 where
        mc: "move_construct T (ptr_minus (?b, size_m this) 1) (?b, size_m this) hp = Inr hp1"
        and mk: "mk hp1 = Inr x"
        and mb: "move_backward T (ptr_plus (begin_v this) (snd pos)) (ptr_minus (?b, size_m this) 1)
                   (?b, size_m this) hp1 = (Inr u, hp2)"
        and ma: "move_assign_from T x (?b, snd pos) hp2 = Inr hp'"
        and r: "r = (?b, snd pos)"
        and this': "this' = this\<lparr>size_m := size_m this + 1\<rparr>"
        by blast
      define m where "m = ?n - 1"
      have n: "?n = Suc m" using plt by (simp add: m_def)
      have pm: "p \<le> m" using plt n by simp
      have mc': "move_construct T (?b, m) (?b, Suc m) hp = Inr hp1"
        using mc by (simp add: sz n ptr_minus_def)
      have mb': "move_backward T (?b, p) (?b, m) (?b, Suc m) hp1 = (Inr u, hp2)"
        using mb by (simp add: sz n ptr_minus_def ptr_plus_def bg pos)
      have hp': "hp' = construct_at (?b, p) x hp2"
        using move_assign_from_Inr[OF ma] pos by simp
      have sd: "(?b, m) \<noteq> (?b, Suc m)" by simp
      note t = transfersD[OF transfers_move_construct mc' sd]
      note s = move_backward_Inr[OF mb']
      from s have t2: "table hp2 = table hp1" by blast
      from s have sh: "\<And>k. k < m - p \<Longrightarrow> mem hp2 (?b, m - k) = mem hp1 (?b, m - Suc k)" by blast
      from s have fr: "\<And>q. \<not> (fst q = ?b \<and> p \<le> snd q \<and> snd q \<le> m) \<Longrightarrow> mem hp2 q = mem hp1 q"
        by blast
      have old: "\<And>i. i < m \<Longrightarrow> mem hp1 (?b, i) = Live (xs ! i)"
        using t(4) live n by simp
      have slot: "\<And>i. i \<le> ?n \<Longrightarrow> mem hp' (?b, i) = Live ((take p xs @ x # drop p xs) ! i)"
      proof -
        fix i assume i: "i \<le> ?n"
        consider (lo) "i < p" | (eq) "i = p" | (mid) "p < i" "i \<le> m" | (top) "i = Suc m"
          using i n by linarith
        then show "mem hp' (?b, i) = Live ((take p xs @ x # drop p xs) ! i)"
        proof cases
          case lo
          have "mem hp' (?b, i) = mem hp2 (?b, i)" using hp' lo by simp
          also have "\<dots> = mem hp1 (?b, i)" using lo by (intro fr) simp
          also have "\<dots> = Live (xs ! i)" using old[of i] lo pm by simp
          finally show ?thesis using nth_insert_at[OF pn i, of x] lo by simp
        next
          case eq
          then show ?thesis using hp' nth_insert_at[OF pn i, of x] by simp
        next
          case mid
          define k where "k = m - i"
          have k: "k < m - p" "m - k = i" "m - Suc k = i - 1" using mid by (simp_all add: k_def)
          have "mem hp' (?b, i) = mem hp2 (?b, i)" using hp' mid by simp
          also have "\<dots> = mem hp1 (?b, i - 1)" using sh[OF k(1)] k by simp
          also have "\<dots> = Live (xs ! (i - 1))" using old[of "i - 1"] mid by simp
          finally show ?thesis using nth_insert_at[OF pn i, of x] mid by simp
        next
          case top
          have "mem hp' (?b, i) = mem hp2 (?b, i)" using hp' top pm by simp
          also have "\<dots> = mem hp1 (?b, Suc m)" using top fr[of "(?b, Suc m)"] by simp
          also have "\<dots> = Live (xs ! m)" using t(2) live[of m] n by simp
          finally show ?thesis using nth_insert_at[OF pn i, of x] top pm by simp
        qed
      qed
      have "holds hp' this' (take p xs @ x # drop p xs)"
        unfolding holds_def
      proof (intro conjI allI impI)
        show "size_m this' = length (take p xs @ x # drop p xs)" using this' sz pn by simp
        show "length (take p xs @ x # drop p xs) \<le> capacity_m (data_m this')"
          using this' sz pn cap fit by (simp add: Capacity_raw_def)
        show "buffer_m (data_m this') \<le> length (table hp')"
          using this' hp' t2 t(5) bt by simp
      next
        fix i assume "i < length (take p xs @ x # drop p xs)"
        then have i: "i \<le> ?n" using pn by simp
        show "mem hp' (buffer_m (data_m this'), i) = Live ((take p xs @ x # drop p xs) ! i)"
          using slot[OF i] this' by simp
      qed
      then show ?thesis using pos pn mk r this' by auto
    qed
  qed
qed

section \<open>Lemmas about the operations\<close>

lemma for_n_total:
  assumes "Q k hp"
    and "\<And>j h. k \<le> j \<Longrightarrow> j < k + n \<Longrightarrow> Q j h \<Longrightarrow> \<exists>h'. step j h = Inr h' \<and> Q (Suc j) h'"
  shows "\<exists>hp'. for_n step k n hp = Inr hp'"
  using assms
proof (induction n arbitrary: k hp)
  case 0
  then show ?case by simp
next
  case (Suc n)
  from Suc.prems(2)[of k hp] Suc.prems(1) obtain h1 where s1: "step k hp = Inr h1" and Q1: "Q (Suc k) h1"
    by auto
  have "\<exists>hp'. for_n step (Suc k) n h1 = Inr hp'"
  proof (rule Suc.IH[OF Q1])
    fix j h
    assume "Suc k \<le> j" "j < Suc k + n" "Q j h"
    then show "\<exists>h'. step j h = Inr h' \<and> Q (Suc j) h'" using Suc.prems(2)[of j h] by simp
  qed
  then show ?case using s1 by simp
qed

lemma move_assign_succeeds:
  assumes "mem h src = Live x" "mem h dst \<noteq> Raw"
    and "is_nothrow_move_assignable T \<or> \<not> move_assign_throws T x"
  shows "\<exists>h'. move_assign T src dst h = Inr h'"
  using assms by (auto simp: move_assign_def move_assign_from_def split: slot.splits)

lemma copy_assign_succeeds:
  assumes "mem h src = Live x" "mem h dst \<noteq> Raw" and "\<not> copy_assign_throws T x"
  shows "\<exists>h'. copy_assign T src dst h = Inr h'"
  using assms by (auto simp: copy_assign_def split: slot.splits)

lemma shift_left_total:
  fixes hp :: "'a heap"
  assumes f: "transfers f"
    and ok: "\<And>j h. j < n \<Longrightarrow> mem h (b, Suc p + j) = Live (xs ! (Suc p + j)) \<Longrightarrow> mem h (b, p + j) \<noteq> Raw \<Longrightarrow>
               \<exists>h'. f (b, Suc p + j) (b, p + j) h = Inr h'"
    and live: "\<And>i. p \<le> i \<Longrightarrow> i \<le> p + n \<Longrightarrow> mem hp (b, i) = Live (xs ! i)"
  shows "\<exists>hp'. for_n (\<lambda>k. f (ptr_plus (b, Suc p) k) (ptr_plus (b, p) k)) 0 n hp = Inr hp'"
proof -
  let ?Q = "\<lambda>j h. (\<forall>i. p + j < i \<longrightarrow> i \<le> p + n \<longrightarrow> mem h (b, i) = Live (xs ! i)) \<and> mem h (b, p + j) \<noteq> Raw"
  show ?thesis
  proof (rule for_n_total[where Q = ?Q])
    show "?Q 0 hp" using live by simp
  next
    fix j and h :: "'a heap"
    assume j: "0 \<le> j" "j < 0 + n" and Q: "?Q j h"
    then have jn: "j < n" by simp
    have src: "mem h (b, Suc p + j) = Live (xs ! (Suc p + j))" using Q jn by simp
    have dst: "mem h (b, p + j) \<noteq> Raw" using Q by simp
    from ok[of j h] jn src dst obtain h' where st: "f (b, Suc p + j) (b, p + j) h = Inr h'" by auto
    have sd: "(b, Suc p + j) \<noteq> (b, p + j)" by simp
    note t = transfersD[OF f st sd]
    have "?Q (Suc j) h'"
    proof (intro conjI allI impI)
      fix i assume "p + Suc j < i" "i \<le> p + n"
      then show "mem h' (b, i) = Live (xs ! i)" using t(4)[of "(b, i)"] Q by simp
    next
      show "mem h' (b, p + Suc j) \<noteq> Raw" using t(3) by simp
    qed
    then show "\<exists>h'. f (ptr_plus (b, Suc p) j) (ptr_plus (b, p) j) h = Inr h' \<and> ?Q (Suc j) h'"
      using st by (auto simp: ptr_plus_def)
  qed
qed

lemma Erase_total:
  assumes h: "holds hp this xs" and p: "p < length xs"
    and ok: "\<And>x. x \<in> set (drop (Suc p) xs) \<Longrightarrow>
               (if use_move T then is_nothrow_move_assignable T \<or> \<not> move_assign_throws T x
                else \<not> copy_assign_throws T x)"
  shows "\<exists>r hp' this'. Erase T (buffer_m (data_m this), p) (hp, this) = (Inr r, hp', this')"
proof -
  let ?b = "buffer_m (data_m this)"
  let ?n = "length xs"
  from h have sz: "size_m this = ?n" and cap: "?n \<le> capacity_m (data_m this)"
    and live: "\<And>i. i < ?n \<Longrightarrow> mem hp (?b, i) = Live (xs ! i)"
    by (auto simp: holds_def)
  have e: "end_v this = Inr (?b, ?n)"
    using sz cap by (simp add: end_v_def RawMemory_plus_def)
  have d: "distance (?b, Suc p) (?b, ?n) = Inr (?n - Suc p)"
    using p by (simp add: distance_def ptr_le_def)
  have inset: "\<And>j. j < ?n - Suc p \<Longrightarrow> xs ! (Suc p + j) \<in> set (drop (Suc p) xs)"
  proof -
    fix j assume j: "j < ?n - Suc p"
    then have "drop (Suc p) xs ! j \<in> set (drop (Suc p) xs)" by (intro nth_mem) simp
    moreover have "drop (Suc p) xs ! j = xs ! (Suc p + j)" using j p by simp
    ultimately show "xs ! (Suc p + j) \<in> set (drop (Suc p) xs)" by simp
  qed
  have lv: "\<And>i. p \<le> i \<Longrightarrow> i \<le> p + (?n - Suc p) \<Longrightarrow> mem hp (?b, i) = Live (xs ! i)"
    using live p by simp
  have "\<exists>u hp1. (if use_move T then std_move T (?b, Suc p) (?b, ?n) (?b, p) hp
                 else std_copy T (?b, Suc p) (?b, ?n) (?b, p) hp) = (Inr u, hp1)"
  proof (cases "use_move T")
    case True
    have "\<exists>hp'. for_n (\<lambda>k. move_assign T (ptr_plus (?b, Suc p) k) (ptr_plus (?b, p) k)) 0 (?n - Suc p) hp = Inr hp'"
    proof (rule shift_left_total[OF transfers_move_assign _ lv])
      fix j and h :: "'a heap"
      assume "j < ?n - Suc p" "mem h (?b, Suc p + j) = Live (xs ! (Suc p + j))" "mem h (?b, p + j) \<noteq> Raw"
      then show "\<exists>h'. move_assign T (?b, Suc p + j) (?b, p + j) h = Inr h'"
        using move_assign_succeeds[of h "(?b, Suc p + j)" "xs ! (Suc p + j)" "(?b, p + j)" T]
          ok[OF inset[of j]] True by simp
    qed
    then show ?thesis using True d by (auto simp: std_move_def)
  next
    case False
    have "\<exists>hp'. for_n (\<lambda>k. copy_assign T (ptr_plus (?b, Suc p) k) (ptr_plus (?b, p) k)) 0 (?n - Suc p) hp = Inr hp'"
    proof (rule shift_left_total[OF transfers_copy_assign _ lv])
      fix j and h :: "'a heap"
      assume "j < ?n - Suc p" "mem h (?b, Suc p + j) = Live (xs ! (Suc p + j))" "mem h (?b, p + j) \<noteq> Raw"
      then show "\<exists>h'. copy_assign T (?b, Suc p + j) (?b, p + j) h = Inr h'"
        using copy_assign_succeeds[of h "(?b, Suc p + j)" "xs ! (Suc p + j)" "(?b, p + j)" T]
          ok[OF inset[of j]] False by simp
    qed
    then show ?thesis using False d by (auto simp: std_copy_def copy_n_def)
  qed
  then obtain u hp1 where sh: "(if use_move T then std_move T (?b, Suc p) (?b, ?n) (?b, p) hp
                 else std_copy T (?b, Suc p) (?b, ?n) (?b, p) hp) = (Inr u, hp1)" by blast
  have b: "begin_v this = (?b, 0)" by (simp add: begin_v_def GetAddress_def)
  show ?thesis
  proof (cases "use_move T")
    case True
    with sh have "std_move T (?b, Suc p) (?b, ?n) (?b, p) hp = (Inr u, hp1)" by simp
    then show ?thesis using True e p by (simp add: Erase_def b ptr_plus_def ptr_le_def)
  next
    case False
    with sh have "std_copy T (?b, Suc p) (?b, ?n) (?b, p) hp = (Inr u, hp1)" by simp
    then show ?thesis using False e p by (simp add: Erase_def b ptr_plus_def ptr_le_def)
  qed
qed

lemma holds_sample:
  "n = length xs \<Longrightarrow> n \<le> c \<Longrightarrow> holds (sample_heap c xs) (sample_vector c n) xs"
  by (simp add: holds_def sample_heap_def sample_vector_def)

lemma RawMemory_ctor_capacity:
  "RawMemory_ctor T c hp = Inr (nd, hp1) \<Longrightarrow> capacity_m nd = c"
  by (auto simp: RawMemory_ctor_def split: sum.splits)

lemma Reserve_vec:
  assumes "Reserve T n (hp, this) = (res, hp', this')"
  shows "size_m this' = size_m this \<and> capacity_m (data_m this) \<le> capacity_m (data_m this') \<and>
         (res = Inr () \<longrightarrow> n \<le> capacity_m (data_m this'))"
  using assms unfolding Reserve_def Let_def RawMemory_Swap_eq Capacity_raw_def
  by (simp split: if_splits sum.splits prod.splits) (auto dest: RawMemory_ctor_capacity)

lemma Resize_vec:
  assumes "Resize T n (hp, this) = (res, hp', this')"
  shows "capacity_m (data_m this) \<le> capacity_m (data_m this') \<and>
         (size_m this \<le> capacity_m (data_m this) \<longrightarrow> size_m this' \<le> capacity_m (data_m this'))"
proof -
  obtain r1 hp1 this1 where rs: "Reserve T n (hp, this) = (r1, hp1, this1)"
    by (cases "Reserve T n (hp, this)") 
  note rv = Reserve_vec[OF rs]
  show ?thesis
    using assms rv unfolding Resize_def Let_def RawMemory_index_def
    by (simp split: if_splits sum.splits prod.splits add: rs) auto
qed

lemma PopBack_vec:
  assumes "PopBack (hp, this) = (res, hp', this')"
  shows "data_m this' = data_m this \<and>
         (size_m this \<le> capacity_m (data_m this) \<longrightarrow> size_m this' \<le> capacity_m (data_m this'))"
  using assms unfolding PopBack_def Let_def RawMemory_index_def
  by (simp split: if_splits sum.splits prod.splits) auto

lemma EmplaceBack_vec:
  assumes "EmplaceBack T mk (hp, this) = (res, hp', this')"
  shows "capacity_m (data_m this) \<le> capacity_m (data_m this') \<and>
         (size_m this \<le> capacity_m (data_m this) \<longrightarrow> size_m this' \<le> capacity_m (data_m this')) \<and>
         ((\<exists>r. res = Inr r) \<longrightarrow>
            capacity_m (data_m this') =
              (if size_m this = capacity_m (data_m this)
               then (if capacity_m (data_m this) = 0 then 1 else capacity_m (data_m this) * 2)
               else capacity_m (data_m this)))"
  using assms unfolding EmplaceBack_def Let_def RawMemory_Swap_eq Capacity_raw_def RawMemory_plus_def
  by (simp split: if_splits sum.splits prod.splits) (auto dest: RawMemory_ctor_capacity)

lemma PushBack_vec:
  assumes "PushBack T v (hp, this) = (res, hp', this')"
  shows "capacity_m (data_m this) \<le> capacity_m (data_m this') \<and>
         (size_m this \<le> capacity_m (data_m this) \<longrightarrow> size_m this' \<le> capacity_m (data_m this'))"
proof -
  obtain r1 hp1 this1 where rs: "EmplaceBack T (forward_construct T v) (hp, this) = (r1, hp1, this1)"
    by (cases "EmplaceBack T (forward_construct T v) (hp, this)")
  from EmplaceBack_vec[OF rs] assms rs show ?thesis
    by (auto simp: PushBack_def split: sum.splits)
qed

lemma Erase_vec:
  assumes "Erase T pos (hp, this) = (res, hp', this')"
  shows "data_m this' = data_m this \<and>
         (size_m this \<le> capacity_m (data_m this) \<longrightarrow> size_m this' \<le> capacity_m (data_m this'))"
  using assms unfolding Erase_def Let_def end_v_def RawMemory_plus_def
  by (simp split: if_splits sum.splits prod.splits) auto

lemma Emplace_vec:
  assumes run: "Emplace T pos mk (hp, this) = (res, hp', this')"
  shows "capacity_m (data_m this) \<le> capacity_m (data_m this') \<and>
         (size_m this \<le> capacity_m (data_m this) \<longrightarrow> size_m this' \<le> capacity_m (data_m this')) \<and>
         ((\<exists>r. res = Inr r) \<longrightarrow>
            capacity_m (data_m this') =
              (if size_m this = capacity_m (data_m this)
               then (if capacity_m (data_m this) = 0 then 1 else capacity_m (data_m this) * 2)
               else capacity_m (data_m this)))"
proof (cases "end_v this")
  case (Inl e)
  with run show ?thesis by (auto simp: Emplace_def)
next
  case (Inr end')
  then have sc: "size_m this \<le> capacity_m (data_m this)"
    by (simp add: end_v_def RawMemory_plus_def split: if_splits)
  show ?thesis
  proof (cases "ptr_le (begin_v this) pos \<and> ptr_le pos end'")
    case False
    with run Inr show ?thesis by (auto simp: Emplace_def)
  next
    case rng: True
    show ?thesis
    proof (cases "pos = end'")
      case True
      with run Inr rng have "EmplaceBack T mk (hp, this) = (res, hp', this')"
        by (simp add: Emplace_def)
      from EmplaceBack_vec[OF this] show ?thesis .
    next
      case ne: False
      have r1: "\<not> \<not> (ptr_le (begin_v this) pos \<and> ptr_le pos end')" using rng by simp
      show ?thesis
      proof (cases "size_m this = Capacity_raw (data_m this)")
        case True
        show ?thesis
          using run sc True
          apply (simp only: Emplace_def Inr sum.case prod.case Let_def if_not_P[OF r1] if_not_P[OF ne]
                   if_P[OF True] RawMemory_Swap_eq)
          apply (simp split: sum.splits prod.splits if_splits add: Capacity_raw_def)
                    apply (auto dest: RawMemory_ctor_capacity)
          done
      next
        case False
        show ?thesis
          using run sc False
          apply (simp only: Emplace_def Inr sum.case prod.case Let_def if_not_P[OF r1] if_not_P[OF ne]
                   if_not_P[OF False])
          apply (simp split: sum.splits prod.splits if_splits add: Capacity_raw_def)
          apply auto
          done
      qed
    qed
  qed
qed

lemma Insert_vec:
  assumes "Insert T pos v (hp, this) = (res, hp', this')"
  shows "capacity_m (data_m this) \<le> capacity_m (data_m this') \<and>
         (size_m this \<le> capacity_m (data_m this) \<longrightarrow> size_m this' \<le> capacity_m (data_m this')) \<and>
         ((\<exists>r. res = Inr r) \<longrightarrow>
            capacity_m (data_m this') =
              (if size_m this = capacity_m (data_m this)
               then (if capacity_m (data_m this) = 0 then 1 else capacity_m (data_m this) * 2)
               else capacity_m (data_m this)))"
  using Emplace_vec[of T pos "forward_construct T v" hp this res hp' this'] assms
  by (simp add: Insert_def)

lemma list_all_update:
  "list_all P xs \<Longrightarrow> P x \<Longrightarrow> list_all P (xs[a := x])"
  by (auto simp: list_all_iff dest: set_update_subset_insert[THEN subsetD])

lemma list_all_lookup:
  "list_all P objs \<Longrightarrow> lookup objs a = Some v \<Longrightarrow> P (Some v)"
  by (auto simp: lookup_def list_all_length split: if_splits)

lemma store_of_lookup: "lookup objs a = Some v \<Longrightarrow> store_of objs a = v"
  by (simp add: store_of_def)

lemma Vector_ctor_vec:
  "Vector_ctor T n hp = (Inr v, hp') \<Longrightarrow> size_m v = n \<and> capacity_m (data_m v) = n"
  unfolding Vector_ctor_def
  by (simp split: sum.splits prod.splits) (auto dest: RawMemory_ctor_capacity)

lemma Vector_copy_ctor_vec:
  "Vector_copy_ctor T other hp = (Inr v, hp') \<Longrightarrow>
   size_m v = size_m other \<and> capacity_m (data_m v) = size_m other"
  unfolding Vector_copy_ctor_def
  by (simp split: sum.splits prod.splits) (auto dest: RawMemory_ctor_capacity)

lemma Vector_move_ctor_eq:
  "Vector_move_ctor other =
     (\<lparr>data_m = data_m other, size_m = size_m other\<rparr>, \<lparr>data_m = RawMemory_default, size_m = 0\<rparr>)"
  by (simp add: Vector_move_ctor_def RawMemory_move_ctor_def RawMemory_Swap_eq)

lemma Vector_Swap_eq: "Vector_Swap this other = (other, this)"
  by (cases this, cases other) (simp add: Vector_Swap_def RawMemory_Swap_eq)

lemma Vector_move_assign_eq:
  "Vector_move_assign this rhs (s, hp) =
     (if this \<noteq> rhs then ((s(this := s rhs))(rhs := s this), hp) else (s, hp))"
  by (auto simp: Vector_move_assign_def RawMemory_Swap_eq fun_eq_iff)

lemma Vector_Swap_at_eq:
  "Vector_Swap_at this other (s, hp) = ((s(this := s other))(other := s this), hp)"
  by (simp add: Vector_Swap_at_def Vector_Swap_eq)

lemma Vector_copy_assign_vec:
  assumes "Vector_copy_assign T this rhs (s, hp) = (res, s', hp')"
  shows "capacity_m (data_m (s this)) \<le> capacity_m (data_m (s' this)) \<and>
         (size_within_capacity (s this) \<longrightarrow> size_within_capacity (s' this)) \<and>
         (\<forall>a. a \<noteq> this \<longrightarrow> s' a = s a)"
  using assms
  unfolding Vector_copy_assign_def Let_def Vector_Swap_eq Capacity_raw_def RawMemory_plus_def
    size_within_capacity_def
  by (simp split: if_splits sum.splits prod.splits) (auto dest!: Vector_copy_ctor_vec)

lemma on_object_invariant:
  assumes inv: "world_invariant w" and run: "on_object a f w = Some w'"
    and f: "\<And>hp v res hp' v'. f (hp, v) = (res, hp', v') \<Longrightarrow> size_within_capacity v \<Longrightarrow>
               size_within_capacity v'"
  shows "world_invariant w'"
proof -
  obtain objs hp where w: "w = (objs, hp)" by (cases w)
  from run w obtain v res hp' v' where lk: "lookup objs a = Some v"
    and fr: "f (hp, v) = (res, hp', v')" and w': "w' = (objs[a := Some v'], hp')"
    by (auto simp: on_object_def split: option.splits prod.splits if_splits)
  from inv w have "list_all (\<lambda>obj. case obj of None \<Rightarrow> True | Some v \<Rightarrow> size_within_capacity v) objs"
    by (simp add: world_invariant_def)
  from list_all_lookup[OF this lk] have "size_within_capacity v" by simp
  from f[OF fr this] inv w w' show ?thesis
    by (simp add: world_invariant_def list_all_update)
qed

lemma exec_invariant:
  assumes inv: "world_invariant w" and run: "exec T c w = Some w'"
  shows "world_invariant w'"
proof -
  obtain objs hp where w: "w = (objs, hp)" by (cases w)
  let ?P = "\<lambda>obj. case obj of None \<Rightarrow> True | Some v \<Rightarrow> size_within_capacity v"
  from inv w have all: "list_all ?P objs" by (simp add: world_invariant_def)
  show ?thesis
  proof (cases c)
    case New_default
    with run w all show ?thesis
      by (auto simp: world_invariant_def Vector_default_def RawMemory_default_def size_within_capacity_def)
  next
    case (New_sized n)
    with run w all show ?thesis
      by (auto simp: world_invariant_def size_within_capacity_def
               split: prod.splits sum.splits if_splits dest: Vector_ctor_vec)
  next
    case (New_copy b)
    with run w all show ?thesis
      by (auto simp: world_invariant_def size_within_capacity_def
               split: prod.splits sum.splits if_splits option.splits dest: Vector_copy_ctor_vec)
  next
    case (New_move b)
    with run w obtain other where lk: "lookup objs b = Some other"
      and w': "w' = (objs[b := Some \<lparr>data_m = RawMemory_default, size_m = 0\<rparr>] @
                      [Some \<lparr>data_m = data_m other, size_m = size_m other\<rparr>], hp)"
      by (auto simp: Vector_move_ctor_eq split: option.splits)
    from list_all_lookup[OF all lk] have "size_within_capacity other" by simp
    then show ?thesis using w' all
      by (simp add: world_invariant_def list_all_update size_within_capacity_def RawMemory_default_def)
  next
    case (Delete a)
    with run w all show ?thesis
      by (auto simp: world_invariant_def list_all_update split: option.splits)
  next
    case (Copy_assign a b)
    with run w obtain res s' hp' va where lk: "lookup objs a = Some va"
      and ca: "Vector_copy_assign T a b (store_of objs, hp) = (res, s', hp')"
      and w': "w' = (objs[a := Some (s' a)], hp')"
      by (auto split: if_splits prod.splits)
    from list_all_lookup[OF all lk] have "size_within_capacity (store_of objs a)"
      using store_of_lookup[OF lk] by simp
    with Vector_copy_assign_vec[OF ca] have "size_within_capacity (s' a)" by simp
    then show ?thesis using w' all by (simp add: world_invariant_def list_all_update)
  next
    case (Move_assign a b)
    with run w obtain va vb where lk: "lookup objs a = Some va" "lookup objs b = Some vb"
      and w': "w' = (objs[a := Some (if a \<noteq> b then vb else va), b := Some (if a \<noteq> b then va else vb)], hp)"
      by (auto simp: Vector_move_assign_eq store_of_lookup split: if_splits)
    from list_all_lookup[OF all lk(1)] list_all_lookup[OF all lk(2)]
    have "size_within_capacity va" "size_within_capacity vb" by simp_all
    then show ?thesis using w' all by (simp add: world_invariant_def list_all_update)
  next
    case (Call_Swap a b)
    with run w obtain va vb where lk: "lookup objs a = Some va" "lookup objs b = Some vb"
      and w': "w' = (objs[a := Some (if a \<noteq> b then vb else va), b := Some va], hp)"
      by (auto simp: Vector_Swap_at_eq store_of_lookup split: if_splits)
    from list_all_lookup[OF all lk(1)] list_all_lookup[OF all lk(2)]
    have "size_within_capacity va" "size_within_capacity vb" by simp_all
    then show ?thesis using w' all by (simp add: world_invariant_def list_all_update)
  next
    case (Call_Reserve a n)
    with run have "on_object a (Reserve T n) w = Some w'" by simp
    from on_object_invariant[OF inv this] show ?thesis
      using Reserve_vec by (fastforce simp: size_within_capacity_def)
  next
    case (Call_Resize a n)
    with run have "on_object a (Resize T n) w = Some w'" by simp
    from on_object_invariant[OF inv this] show ?thesis
      using Resize_vec by (fastforce simp: size_within_capacity_def)
  next
    case (Call_PushBack a v)
    with run have "on_object a (PushBack T v) w = Some w'" by simp
    from on_object_invariant[OF inv this] show ?thesis
      using PushBack_vec by (fastforce simp: size_within_capacity_def)
  next
    case (Call_PopBack a)
    with run have "on_object a PopBack w = Some w'" by simp
    from on_object_invariant[OF inv this] show ?thesis
      using PopBack_vec by (fastforce simp: size_within_capacity_def)
  next
    case (Call_EmplaceBack a mk)
    with run have "on_object a (EmplaceBack T mk) w = Some w'" by simp
    from on_object_invariant[OF inv this] show ?thesis
      using EmplaceBack_vec by (fastforce simp: size_within_capacity_def)
  next
    case (Call_Emplace a pos mk)
    with run have "on_object a (Emplace T pos mk) w = Some w'" by simp
    from on_object_invariant[OF inv this] show ?thesis
      using Emplace_vec by (fastforce simp: size_within_capacity_def)
  next
    case (Call_Insert a pos v)
    with run have "on_object a (Insert T pos v) w = Some w'" by simp
    from on_object_invariant[OF inv this] show ?thesis
      using Insert_vec by (fastforce simp: size_within_capacity_def)
  next
    case (Call_Erase a pos)
    with run have "on_object a (Erase T pos) w = Some w'" by simp
    from on_object_invariant[OF inv this] show ?thesis
      using Erase_vec by (fastforce simp: size_within_capacity_def)
  qed
qed

lemma reachable_invariant: "reachable T w \<Longrightarrow> world_invariant w"
proof (induction rule: reachable.induct)
  case start
  show ?case by (simp add: world_invariant_def)
next
  case (call w c w')
  then show ?case using exec_invariant by blast
qed

lemma copy_construct_frame:
  "copy_construct T src dst h = Inr h' \<Longrightarrow>
   table h' = table h \<and> (\<forall>q. q \<noteq> dst \<longrightarrow> mem h' q = mem h q)"
  by (auto simp: copy_construct_def split: slot.splits if_splits)

lemma uninitialized_copy_n_frame:
  assumes run: "uninitialized_copy_n T s n d hp = (res, hp')"
  shows "table hp' = table hp \<and> (\<forall>q. fst q \<noteq> fst d \<longrightarrow> mem hp' q = mem hp q)"
proof -
  let ?step = "\<lambda>k. copy_construct T (ptr_plus s k) (ptr_plus d k)"
  define P where "P = (\<lambda>(j::nat) (h::'a heap).
     table h = table hp \<and> (\<forall>q. fst q \<noteq> fst d \<longrightarrow> mem h q = mem hp q))"
  have P0: "P 0 hp" by (simp add: P_def)
  have stepP: "P (Suc j) h'" if "P j h" "?step j h = Inr h'" for j h h'
  proof -
    from copy_construct_frame[OF that(2)] have "table h' = table h"
      and "\<And>q. fst q \<noteq> fst d \<Longrightarrow> mem h' q = mem h q"
      by (auto simp: ptr_plus_def)
    with that(1) show ?thesis by (simp add: P_def)
  qed
  show ?thesis
  proof (cases "for_n ?step 0 n hp")
    case (Inr h)
    have "P (0 + n) h"
      by (rule for_n_Inr[where P = P, OF Inr P0]) (rule stepP)
    with run Inr show ?thesis by (simp add: uninitialized_copy_n_def P_def)
  next
    case (Inl x)
    obtain e i h where x: "x = (e, i, h)" by (cases x)
    have "0 \<le> i \<and> i < 0 + n \<and> P i h \<and> ?step i h = Inl e"
      by (rule for_n_Inl[where P = P, OF Inl[unfolded x] P0]) (rule stepP)
    then have "P i h" by simp
    moreover from run Inl x have "hp' = destroy_n d i h"
      by (simp add: uninitialized_copy_n_def)
    ultimately show ?thesis
      by (auto simp: mem_destroy_n P_def)
  qed
qed

lemma Vector_copy_ctor_Inl:
  assumes run: "Vector_copy_ctor T other hp = (Inl e, hp')"
  shows "(\<forall>q. fst q \<le> length (table hp) \<longrightarrow> mem hp' q = mem hp q) \<and>
         (\<forall>h. h \<le> length (table hp) \<longrightarrow> live_block hp' h = live_block hp h) \<and>
         length (table hp) \<le> length (table hp')"
proof (cases "RawMemory_ctor T (size_m other) hp")
  case (Inl e')
  with run show ?thesis by (simp add: Vector_copy_ctor_def)
next
  case (Inr ndhp)
  obtain nd hp1 where ndhp: "ndhp = (nd, hp1)" by (cases ndhp)
  note ctor = Inr[unfolded ndhp]
  obtain res hp2 where un: "uninitialized_copy_n T (GetAddress (data_m other)) (size_m other)
                              (GetAddress nd) hp1 = (res, hp2)"
    by (cases "uninitialized_copy_n T (GetAddress (data_m other)) (size_m other) (GetAddress nd) hp1")
  from run have "(case res of Inl e \<Rightarrow> (Inl e, RawMemory_dtor nd hp2)
                    | Inr u \<Rightarrow> (Inr \<lparr>data_m = nd, size_m = size_m other\<rparr>, hp2)) = (Inl e, hp')"
    by (simp add: Vector_copy_ctor_def ctor un)
  then have res: "res = Inl e" and hp': "hp' = RawMemory_dtor nd hp2"
    by (simp_all split: sum.splits)
  note fr = uninitialized_copy_n_frame[OF un]
  show ?thesis
  proof (cases "size_m other = 0")
    case True
    with ctor have "nd = \<lparr>buffer_m = 0, capacity_m = 0\<rparr>" "hp1 = hp"
      by (auto simp: RawMemory_ctor_def Allocate_def)
    moreover from True un have "res = Inr ()"
      by (simp add: uninitialized_copy_n_def)
    ultimately show ?thesis using res by simp
  next
    case False
    note a = RawMemory_ctor_Inr[OF ctor False]
    let ?h = "Suc (length (table hp))"
    from a have nd: "buffer_m nd = ?h" by simp
    from a have t1: "table hp1 = table hp @ [Some (size_m other)]" by simp
    from a have m1: "\<And>q. mem hp1 q = (if fst q = ?h then Raw else mem hp q)" by blast
    from fr have t2: "table hp2 = table hp1" by simp
    from fr[unfolded GetAddress_def nd fst_conv]
    have m2: "\<And>q. fst q \<noteq> ?h \<Longrightarrow> mem hp2 q = mem hp1 q"
      by blast
    have A: "\<And>q. fst q \<le> length (table hp) \<Longrightarrow> mem hp' q = mem hp q"
    proof -
      fix q :: ptr assume q: "fst q \<le> length (table hp)"
      then have "fst q \<noteq> ?h" by simp
      then show "mem hp' q = mem hp q" using hp' m2[of q] m1[of q] by (simp add: RawMemory_dtor_def)
    qed
    have tb: "table hp' = table hp @ [None]"
      using hp' t2 t1 nd by (simp add: RawMemory_dtor_def Deallocate_def list_update_append)
    have B: "\<And>h. h \<le> length (table hp) \<Longrightarrow> live_block hp' h = live_block hp h"
      unfolding live_block_def tb by (auto simp: nth_append)
    from A B tb show ?thesis by simp
  qed
qed

lemma for_n_must_fail:
  assumes "Q k hp"
    and "\<And>j h h'. k \<le> j \<Longrightarrow> j < k + n \<Longrightarrow> Q j h \<Longrightarrow> step j h = Inr h' \<Longrightarrow> Q (Suc j) h'"
    and "k \<le> i" "i < k + n"
    and "\<And>h. Q i h \<Longrightarrow> \<exists>e. step i h = Inl e"
  shows "\<exists>e j h. for_n step k n hp = Inl (e, j, h)"
  using assms
proof (induction n arbitrary: k hp)
  case 0
  then show ?case by simp
next
  case (Suc n)
  show ?case
  proof (cases "step k hp")
    case (Inl e)
    then show ?thesis by simp
  next
    case (Inr h1)
    have ik: "i \<noteq> k"
    proof
      assume "i = k"
      with Suc.prems(5)[of hp] Suc.prems(1) Inr show False by auto
    qed
    have Q1: "Q (Suc k) h1" using Suc.prems(2)[of k hp h1] Suc.prems(1) Inr by simp
    have "\<exists>e j h. for_n step (Suc k) n h1 = Inl (e, j, h)"
    proof (rule Suc.IH[OF Q1])
      fix j h h'
      assume "Suc k \<le> j" "j < Suc k + n" "Q j h" "step j h = Inr h'"
      then show "Q (Suc j) h'" using Suc.prems(2)[of j h h'] by simp
    next
      show "Suc k \<le> i" using ik Suc.prems(3) by simp
      show "i < Suc k + n" using Suc.prems(4) by simp
    next
      fix h assume "Q i h"
      then show "\<exists>e. step i h = Inl e" by (rule Suc.prems(5))
    qed
    with Inr show ?thesis by simp
  qed
qed

lemma Vector_copy_ctor_throws:
  assumes h: "holds hp other xs" and bad: "x \<in> set xs" "copy_ctor_throws T x"
  shows "\<exists>e hp'. Vector_copy_ctor T other hp = (Inl e, hp')"
proof (cases "RawMemory_ctor T (size_m other) hp")
  case (Inl e)
  then show ?thesis by (simp add: Vector_copy_ctor_def)
next
  case (Inr ndhp)
  obtain nd hp1 where ndhp: "ndhp = (nd, hp1)" by (cases ndhp)
  note ctor = Inr[unfolded ndhp]
  let ?b = "buffer_m (data_m other)"
  let ?n = "length xs"
  let ?h = "Suc (length (table hp))"
  from h have sz: "size_m other = ?n" and bt: "?b \<le> length (table hp)"
    and live: "\<And>i. i < ?n \<Longrightarrow> mem hp (?b, i) = Live (xs ! i)"
    by (auto simp: holds_def)
  from bad(1) obtain i where i: "i < ?n" "xs ! i = x" by (auto simp: in_set_conv_nth)
  then have n0: "size_m other \<noteq> 0" using sz by auto
  note a = RawMemory_ctor_Inr[OF ctor n0]
  from a have nd: "buffer_m nd = ?h" by simp
  from a have m1: "\<And>q. mem hp1 q = (if fst q = ?h then Raw else mem hp q)" by blast
  let ?step = "\<lambda>k. copy_construct T (ptr_plus (?b, 0) k) (ptr_plus (?h, 0) k)"
  define Q where "Q = (\<lambda>(j::nat) (hh::'a heap). \<forall>i<?n. mem hh (?b, i) = Live (xs ! i))"
  have Q0: "Q 0 hp1" using m1 live bt by (simp add: Q_def)
  have stepQ: "Q (Suc j) h'" if "Q j hh" "?step j hh = Inr h'" for j hh h'
  proof -
    from copy_construct_frame[OF that(2)]
    have "\<And>q. q \<noteq> ptr_plus (?h, 0) j \<Longrightarrow> mem h' q = mem hh q" by blast
    then have "\<And>i. mem h' (?b, i) = mem hh (?b, i)" using bt by (simp add: ptr_plus_def)
    with that(1) show ?thesis by (simp add: Q_def)
  qed
  have fail: "\<exists>e. ?step i hh = Inl e" if "Q i hh" for hh
    using that i bad(2) by (simp add: Q_def copy_construct_def ptr_plus_def)
  have "\<exists>e j hh. for_n ?step 0 ?n hp1 = Inl (e, j, hh)"
  proof (rule for_n_must_fail[where Q = Q and i = i, OF Q0])
    fix j hh h' assume "Q j hh" "?step j hh = Inr h'"
    then show "Q (Suc j) h'" by (rule stepQ)
  next
    show "0 \<le> i" by simp
    show "i < 0 + ?n" using i by simp
  next
    fix hh assume "Q i hh"
    then show "\<exists>e. ?step i hh = Inl e" by (rule fail)
  qed
  then obtain e j hh where "for_n ?step 0 ?n hp1 = Inl (e, j, hh)" by blast
  then have "uninitialized_copy_n T (GetAddress (data_m other)) (size_m other) (GetAddress nd) hp1
               = (Inl e, destroy_n (?h, 0) j hh)"
    by (simp add: uninitialized_copy_n_def GetAddress_def nd sz)
  then show ?thesis by (simp add: Vector_copy_ctor_def ctor)
qed

lemma Vector_copy_assign_failure:
  assumes ne: "this \<noteq> rhs"
    and grow: "capacity_m (data_m (s this)) < size_m (s rhs)"
    and bt: "buffer_m (data_m (s this)) \<le> length (table hp)"
    and run: "Vector_copy_assign T this rhs (s, hp) = (Inl e, s', hp')"
  shows "s' = s \<and> (\<forall>i. mem hp' (buffer_m (data_m (s this)), i) = mem hp (buffer_m (data_m (s this)), i)) \<and>
         live_block hp' (buffer_m (data_m (s this))) = live_block hp (buffer_m (data_m (s this))) \<and>
         length (table hp) \<le> length (table hp')"
proof -
  obtain res hp1 where cc: "Vector_copy_ctor T (s rhs) hp = (res, hp1)"
    by (cases "Vector_copy_ctor T (s rhs) hp")
  from run ne grow cc have "res = Inl e \<and> s' = s \<and> hp' = hp1"
    by (simp add: Vector_copy_assign_def Capacity_raw_def Vector_Swap_eq split: sum.splits)
  with Vector_copy_ctor_Inl[of T "s rhs" hp e hp1] cc bt show ?thesis by simp
qed

lemma holds_sample2:
  "n = length xs \<Longrightarrow> n \<le> c \<Longrightarrow> holds (sample_heap2 c xs c' ys) (sample_store c n c' n' 0) xs"
  "n' = length ys \<Longrightarrow> n' \<le> c' \<Longrightarrow> a \<noteq> 0 \<Longrightarrow>
   holds (sample_heap2 c xs c' ys) (sample_store c n c' n' a) ys"
  by (simp_all add: holds_def sample_heap2_def sample_store_def)

text \<open>
  An \<open>Insert\<close> of a value that is an object of its own, at a position \<open>p\<close> in \<open>[0, n]\<close>, that
  returns normally leaves the array with the elements before \<open>p\<close>, the value, and the
  elements from \<open>p\<close> on, and returns the position of the new element, whether the array
  was full, and the insertion moved it to a buffer of the doubled capacity, or not.
\<close>

lemma Insert_independent_value:
  assumes "holds hp this xs" and "p \<le> length xs"
    and "v = Lvalue V \<or> v = Rvalue V"
    and "Insert T (buffer_m (data_m this), p) v (hp, this) = (Inr r, hp', this')"
  shows "elems hp' this' = map Live (take p xs @ [V] @ drop p xs) \<and>
         holds hp' this' (take p xs @ [V] @ drop p xs) \<and>
         r = (buffer_m (data_m this'), p) \<and>
         Capacity this' =
           (if Size this = Capacity this
            then (if Capacity this = 0 then 1 else Capacity this * 2)
            else Capacity this)"
proof -
  from assms(4) have run: "Emplace T (buffer_m (data_m this), p) (forward_construct T v) (hp, this)
                            = (Inr r, hp', this')"
    by (simp add: Insert_def)
  from Emplace_Inr[OF assms(1) run] obtain x h where mk: "forward_construct T v h = Inr x"
    and h': "holds hp' this' (take p xs @ x # drop p xs)"
    and r: "r = (buffer_m (data_m this'), p)"
    by auto
  from mk assms(3) have x: "x = V" by (auto split: if_splits)
  from Emplace_vec[OF run] have "capacity_m (data_m this') =
              (if size_m this = capacity_m (data_m this)
               then (if capacity_m (data_m this) = 0 then 1 else capacity_m (data_m this) * 2)
               else capacity_m (data_m this))" by blast
  with h' r x elems_holds[OF h'] show ?thesis
    by (simp add: Capacity_def Capacity_raw_def Size_def)
qed

lemma Insert_independent_value_example:
  "holds (sample_heap 3 [1, 2, 3]) (sample_vector 3 3) [1, 2, 3::nat] \<and>
   holds (sample_heap 4 [1, 2, 3]) (sample_vector 4 3) [1, 2, 3::nat] \<and>
   (1::nat) \<le> length [1, 2, 3::nat] \<and>
   (case Insert int_T (1, 1) (Lvalue 99) (sample_heap 3 [1, 2, 3], sample_vector 3 3) of
      (res, hp', this') \<Rightarrow>
        res = Inr (2, 1) \<and> elems hp' this' = [Live 1, Live 99, Live 2, Live 3] \<and>
        Capacity this' = 6) \<and>
   (case Insert int_T (1, 1) (Lvalue 99) (sample_heap 4 [1, 2, 3], sample_vector 4 3) of
      (res, hp', this') \<Rightarrow>
        res = Inr (1, 1) \<and> elems hp' this' = [Live 1, Live 99, Live 2, Live 3] \<and>
        Capacity this' = 4)"
proof -
  have h3: "holds (sample_heap 3 [1, 2, 3]) (sample_vector 3 3) [1, 2, 3::nat]"
    and h4: "holds (sample_heap 4 [1, 2, 3]) (sample_vector 4 3) [1, 2, 3::nat]"
    by (rule holds_sample, simp, simp)+
  have p: "(1::nat) \<le> length [1, 2, 3::nat]" by simp
  obtain r3 hp3 v3 where run3:
    "Insert int_T (1, 1) (Lvalue 99) (sample_heap 3 [1, 2, 3], sample_vector 3 3) = (r3, hp3, v3)"
    by (cases "Insert int_T (1, 1) (Lvalue 99) (sample_heap 3 [1, 2, 3::nat], sample_vector 3 3)")
  obtain r4 hp4 v4 where run4:
    "Insert int_T (1, 1) (Lvalue 99) (sample_heap 4 [1, 2, 3], sample_vector 4 3) = (r4, hp4, v4)"
    by (cases "Insert int_T (1, 1) (Lvalue 99) (sample_heap 4 [1, 2, 3::nat], sample_vector 4 3)")
  have "fst (Insert int_T (1, 1) (Lvalue 99) (sample_heap 3 [1, 2, 3], sample_vector 3 3)) = Inr (2, 1)"
    by code_simp
  with run3 have r3: "r3 = Inr (2, 1)" by simp
  have "fst (Insert int_T (1, 1) (Lvalue 99) (sample_heap 4 [1, 2, 3], sample_vector 4 3)) = Inr (1, 1)"
    by code_simp
  with run4 have r4: "r4 = Inr (1, 1)" by simp
  have b: "buffer_m (data_m (sample_vector c 3)) = 1" for c
    by (simp add: sample_vector_def)
  have c: "Capacity (sample_vector c 3) = c" "Size (sample_vector c 3) = 3" for c
    by (simp_all add: sample_vector_def Capacity_def Capacity_raw_def Size_def)
  have lv: "Lvalue 99 = Lvalue (99::nat) \<or> Lvalue 99 = Rvalue (99::nat)" by simp
  from Insert_independent_value[OF h3 p lv, of int_T "(2, 1)" hp3 v3] run3 r3
  have A: "elems hp3 v3 = [Live 1, Live 99, Live 2, Live 3] \<and> Capacity v3 = 6"
    by (simp add: b c)
  from Insert_independent_value[OF h4 p lv, of int_T "(1, 1)" hp4 v4] run4 r4
  have B: "elems hp4 v4 = [Live 1, Live 99, Live 2, Live 3] \<and> Capacity v4 = 4"
    by (simp add: b c)
  from h3 h4 p A B run3 run4 r3 r4 show ?thesis by simp
qed

section \<open>The claims\<close>

text \<open>
  C1. Move assignment between two distinct raw buffers: the target (at address 0) owns
  block 1 with capacity 3, the source (at address 1) owns block 2 with capacity 5.
  Afterwards block 1 has been released and the target holds block 2 with capacity 5, but
  the source holds the released handle 1 with capacity 3 instead of the null handle with
  capacity 0.
\<close>

theorem RawMemory_move_assign_source_dangling:
  "(let (objs', hp') =
      RawMemory_move_assign 0 1
        ((\<lambda>a. if a = 0 then \<lparr>buffer_m = 1, capacity_m = 3\<rparr>
               else \<lparr>buffer_m = 2, capacity_m = 5\<rparr>),
         \<lparr>mem = (\<lambda>p. Raw :: nat slot), table = [Some 3, Some 5]\<rparr>)
    in objs' 0 = \<lparr>buffer_m = 2, capacity_m = 5\<rparr>
       \<and> objs' 1 = \<lparr>buffer_m = 1, capacity_m = 3\<rparr>
       \<and> live_block hp' 1 = None \<and> live_block hp' 2 = Some 5
       \<and> objs' 1 \<noteq> \<lparr>buffer_m = 0, capacity_m = 0\<rparr>)"
  by (simp add: RawMemory_move_assign_def RawMemory_Swap_def Deallocate_def live_block_def)

text \<open>
  C2, as stated, fails for move assignment: the target (address 0) has size 2 and the
  source (address 1) has size 3; after the assignment the source has size 2, not 0.
\<close>

theorem Vector_move_assign_source_not_empty:
  "(let (s', hp') = Vector_move_assign 0 1
                      (sample_store 4 2 3 3, sample_heap2 4 [1, 2] 3 [7, 8, 9::nat])
    in s' 0 = sample_store 4 2 3 3 1 \<and> Size (s' 1) = 2 \<and> Size (s' 1) \<noteq> 0)"
  by (simp add: Vector_move_assign_eq sample_store_def Size_def)

text \<open>
  C2, amended. Move construction leaves the source with size 0, the null handle and
  capacity 0, the new array taking over the source's buffer and size. Move assignment
  into a different array exchanges the buffers and the sizes of the two arrays: the
  target takes over the source's storage and size, and the source is left with the
  storage and the size the target had, so it keeps no handle on its original storage.
\<close>

theorem Vector_move_leaves_source:
  "Vector_move_ctor other =
     (\<lparr>data_m = data_m other, size_m = size_m other\<rparr>,
      \<lparr>data_m = \<lparr>buffer_m = 0, capacity_m = 0\<rparr>, size_m = 0\<rparr>) \<and>
   (this \<noteq> rhs \<longrightarrow>
      Vector_move_assign this rhs (s, hp) = ((s(this := s rhs))(rhs := s this), hp))"
  by (simp add: Vector_move_ctor_eq Vector_move_assign_eq RawMemory_default_def)

theorem Vector_move_leaves_source_witness:
  "(0::nat) \<noteq> 1 \<and>
   (let (s', hp') = Vector_move_assign 0 1
                      (sample_store 4 2 3 3, sample_heap2 4 [1, 2] 3 [7, 8, 9::nat])
    in s' 0 = sample_store 4 2 3 3 1 \<and> s' 1 = sample_store 4 2 3 3 0 \<and>
       buffer_m (data_m (s' 1)) = 1)"
  using Vector_move_leaves_source[of "sample_store 4 2 3 3 1" 0 1 "sample_store 4 2 3 3"
          "sample_heap2 4 [1, 2] 3 [7, 8, 9::nat]"]
  by (simp add: sample_store_def)

text \<open>
  C3. \<open>Emplace\<close> without growth, at a position before \<open>end()\<close>, when the constructor of
  the temporary throws: the array of \<open>std::vector<int>\<close> holds \<open>{1}\<close>, \<open>{2}\<close>, \<open>{3}\<close> with
  capacity 4 and the insertion is at position 0. The last element has already been
  move-constructed into slot 3, so the array is left as \<open>{1}\<close>, \<open>{2}\<close>, \<open>{}\<close> with size 3:
  the value \<open>{3}\<close> is missing from it and lives on in slot 3, beyond the size, where no
  destructor will reach it.
\<close>

theorem Emplace_temporary_failure_loses_last:
  "(case Emplace int_vector_T (1, 0) (\<lambda>h. Inl CtorThrew)
           (sample_heap 4 [[1], [2], [3]], sample_vector 4 3) of
      (res, hp', this') \<Rightarrow> (res, elems hp' this', mem hp' (1, 3), size_m this'))
   = (Inl CtorThrew, [Live [1], Live [2], Live []], Live [3], 3)"
  by code_simp

text \<open>
  C4. Copy assignment from an array whose size exceeds the capacity of the target, when
  the copy constructor of one of the source's elements throws: the assignment throws,
  the target object (buffer, capacity and size) and every other array are as before, the
  target's buffer is still allocated and holds the same elements.
\<close>

theorem copy_assign_strong_guarantee:
  assumes "this \<noteq> rhs"
    and "holds hp (s this) ys" and "holds hp (s rhs) xs"
    and "Capacity (s this) < length xs"
    and "\<exists>x\<in>set xs. copy_ctor_throws T x"
  shows "\<exists>e hp'. Vector_copy_assign T this rhs (s, hp) = (Inl e, s, hp') \<and>
                  holds hp' (s this) ys \<and> elems hp' (s this) = elems hp (s this) \<and>
                  live_block hp' (buffer_m (data_m (s this))) = live_block hp (buffer_m (data_m (s this)))"
proof -
  from assms(5) obtain x where x: "x \<in> set xs" "copy_ctor_throws T x" by blast
  from Vector_copy_ctor_throws[OF assms(3) x] obtain e hp' where
    cc: "Vector_copy_ctor T (s rhs) hp = (Inl e, hp')" by blast
  from assms(3) have sz: "size_m (s rhs) = length xs" by (simp add: holds_def)
  from assms(4) sz have grow: "capacity_m (data_m (s this)) < size_m (s rhs)"
    by (simp add: Capacity_def Capacity_raw_def)
  from assms(2) have bt: "buffer_m (data_m (s this)) \<le> length (table hp)"
    by (simp add: holds_def)
  from cc assms(1) grow have run: "Vector_copy_assign T this rhs (s, hp) = (Inl e, s, hp')"
    by (simp add: Vector_copy_assign_def Capacity_raw_def)
  note f = Vector_copy_assign_failure[OF assms(1) grow bt run]
  from f have m: "\<And>i. mem hp' (buffer_m (data_m (s this)), i) = mem hp (buffer_m (data_m (s this)), i)"
    by blast
  from f have l: "live_block hp' (buffer_m (data_m (s this))) = live_block hp (buffer_m (data_m (s this)))"
    by blast
  from f have "length (table hp) \<le> length (table hp')" by blast
  then have "holds hp' (s this) ys"
    using assms(2) m by (simp add: holds_def)
  moreover have "elems hp' (s this) = elems hp (s this)"
    using m by (simp add: elems_def)
  ultimately show ?thesis using run l by blast
qed

theorem copy_assign_strong_guarantee_witness:
  "(0::nat) \<noteq> 1 \<and>
   holds (sample_heap2 2 [1, 2] 3 [7, 13, 9]) (sample_store 2 2 3 3 0) [1, 2::nat] \<and>
   holds (sample_heap2 2 [1, 2] 3 [7, 13, 9]) (sample_store 2 2 3 3 1) [7, 13, 9::nat] \<and>
   Capacity (sample_store 2 2 3 3 0) < length [7, 13, 9::nat] \<and>
   (\<exists>x\<in>set [7, 13, 9::nat]. copy_ctor_throws fragile_T x) \<and>
   (\<exists>e hp'. Vector_copy_assign fragile_T 0 1
               (sample_store 2 2 3 3, sample_heap2 2 [1, 2] 3 [7, 13, 9])
               = (Inl e, sample_store 2 2 3 3, hp') \<and>
             elems hp' (sample_store 2 2 3 3 0) = [Live 1, Live 2] \<and>
             live_block hp' 1 = Some 2)"
proof -
  have ne: "(0::nat) \<noteq> 1" by simp
  have h0: "holds (sample_heap2 2 [1, 2] 3 [7, 13, 9]) (sample_store 2 2 3 3 0) [1, 2::nat]"
    by (rule holds_sample2) simp_all
  have h1: "holds (sample_heap2 2 [1, 2] 3 [7, 13, 9]) (sample_store 2 2 3 3 1) [7, 13, 9::nat]"
    by (rule holds_sample2) simp_all
  have c: "Capacity (sample_store 2 2 3 3 0) < length [7, 13, 9::nat]"
    by (simp add: Capacity_def Capacity_raw_def sample_store_def)
  have t: "\<exists>x\<in>set [7, 13, 9::nat]. copy_ctor_throws fragile_T x"
    by (simp add: fragile_T_def)
  have e: "elems (sample_heap2 2 [1, 2] 3 [7, 13, 9::nat]) (sample_store 2 2 3 3 0) = [Live 1, Live 2]"
    by code_simp
  have l: "live_block (sample_heap2 2 [1, 2] 3 [7, 13, 9::nat]) 1 = Some 2"
    by code_simp
  have b: "buffer_m (data_m (sample_store 2 2 3 3 0)) = 1" by (simp add: sample_store_def)
  from copy_assign_strong_guarantee[OF ne h0 h1 c t] obtain e' hp' where
    run: "Vector_copy_assign fragile_T 0 1
            (sample_store 2 2 3 3, sample_heap2 2 [1, 2] 3 [7, 13, 9])
            = (Inl e', sample_store 2 2 3 3, hp')"
    and el: "elems hp' (sample_store 2 2 3 3 0)
               = elems (sample_heap2 2 [1, 2] 3 [7, 13, 9::nat]) (sample_store 2 2 3 3 0)"
    and lb: "live_block hp' (buffer_m (data_m (sample_store 2 2 3 3 0)))
               = live_block (sample_heap2 2 [1, 2] 3 [7, 13, 9::nat])
                   (buffer_m (data_m (sample_store 2 2 3 3 0)))"
    by blast
  from el e have el': "elems hp' (sample_store 2 2 3 3 0) = [Live 1, Live 2]" by (simp only:)
  from lb l have lb': "live_block hp' 1 = Some 2" by (simp only: b)
  from run el' lb' have "\<exists>e hp'. Vector_copy_assign fragile_T 0 1
               (sample_store 2 2 3 3, sample_heap2 2 [1, 2] 3 [7, 13, 9])
               = (Inl e, sample_store 2 2 3 3, hp') \<and>
             elems hp' (sample_store 2 2 3 3 0) = [Live 1, Live 2] \<and>
             live_block hp' 1 = Some 2" by blast
  with ne h0 h1 c t show ?thesis by blast
qed

text \<open>
  C5. \<open>Insert\<close> of the array's own last element, \<open>v.Insert(v.begin(), v[2])\<close>, into the array
  of \<open>std::vector<int>\<close> holding \<open>{1}\<close>, \<open>{2}\<close>, \<open>{3}\<close>. With capacity 4 the insertion does not
  grow the array: the last element is moved to slot 3 before the temporary is copied
  from it, and the array becomes \<open>{}\<close>, \<open>{1}\<close>, \<open>{2}\<close>, \<open>{3}\<close>, the inserted value being the
  moved-from one. With capacity 3 the insertion grows the array, the new element is
  constructed before any element is moved, and the array becomes \<open>{3}\<close>, \<open>{1}\<close>, \<open>{2}\<close>,
  \<open>{3}\<close>.
\<close>

theorem Insert_of_last_element_depends_on_growth:
  "(case Insert int_vector_T (1, 0) (Element (1, 2))
           (sample_heap 4 [[1], [2], [3]], sample_vector 4 3) of
      (res, hp', this') \<Rightarrow> (res, elems hp' this', Capacity this'))
   = (Inr (1, 0), [Live [], Live [1], Live [2], Live [3]], 4) \<and>
   (case Insert int_vector_T (1, 0) (Element (1, 2))
           (sample_heap 3 [[1], [2], [3]], sample_vector 3 3) of
      (res, hp', this') \<Rightarrow> (res, elems hp' this', Capacity this'))
   = (Inr (2, 0), [Live [3], Live [1], Live [2], Live [3]], 6)"
  by code_simp

text \<open>
  C6. \<open>Erase\<close> chooses between move and copy assignment by the traits of the
  constructors (\<open>is_nothrow_move_constructible\<close> or not \<open>is_copy_constructible\<close>), not by
  whether move assignment can throw. For \<open>assign_only_T\<close>, whose move assignment cannot
  throw, it copy-assigns, the copy assignment of 13 throws, and the exception meets the
  \<open>noexcept(is_nothrow_move_assignable_v<T>)\<close> of \<open>Erase\<close>. For \<open>construct_only_T\<close>, whose
  move assignment can throw, it move-assigns and the move assignment of 13 throws.
\<close>

theorem Erase_dispatches_on_move_construction:
  "is_nothrow_move_assignable assign_only_T \<and> \<not> use_move assign_only_T \<and>
   fst (Erase assign_only_T (1, 0) (sample_heap 3 [1, 13, 3], sample_vector 3 3))
     = Inl Terminated \<and>
   \<not> is_nothrow_move_assignable construct_only_T \<and> use_move construct_only_T \<and>
   fst (Erase construct_only_T (1, 0) (sample_heap 3 [1, 13, 3], sample_vector 3 3))
     = Inl MoveThrew"
  by code_simp

text \<open>
  C7. Erasing position \<open>p\<close> of an array with elements \<open>a0 .. a(n-1)\<close>, \<open>p < n\<close>, when the
  assignments that shift the elements after \<open>p\<close> do not throw: \<open>Erase\<close> returns normally,
  the array holds the elements before \<open>p\<close> followed by the elements after \<open>p\<close>, its size is
  one less, its buffer is the same, and the returned position is \<open>begin() + p\<close>, where
  the element that followed the removed one now is.
\<close>

theorem Erase_removes_element:
  assumes "holds hp this xs" and "p < length xs"
    and "\<forall>x\<in>set (drop (Suc p) xs).
           if use_move T then is_nothrow_move_assignable T \<or> \<not> move_assign_throws T x
           else \<not> copy_assign_throws T x"
  shows "\<exists>hp' this'.
           Erase T (buffer_m (data_m this), p) (hp, this) = (Inr (buffer_m (data_m this'), p), hp', this') \<and>
           holds hp' this' (take p xs @ drop (Suc p) xs) \<and>
           elems hp' this' = map Live (take p xs @ drop (Suc p) xs) \<and>
           Size this' = Size this - 1 \<and> data_m this' = data_m this"
proof -
  from Erase_total[OF assms(1,2), of T] assms(3) obtain r hp' this' where
    run: "Erase T (buffer_m (data_m this), p) (hp, this) = (Inr r, hp', this')"
    by blast
  from Erase_Inr[OF assms(1) run] have r: "r = (buffer_m (data_m this), p)"
    and this': "this' = this\<lparr>size_m := length xs - 1\<rparr>"
    and h': "holds hp' this' (take p xs @ drop (Suc p) xs)"
    by auto
  from assms(1) have "size_m this = length xs" by (simp add: holds_def)
  with run r this' h' elems_holds[OF h'] show ?thesis by (simp add: Size_def)
qed

theorem Erase_removes_element_witness:
  "holds (sample_heap 4 [1, 2, 3]) (sample_vector 4 3) [1, 2, 3::nat] \<and>
   (1::nat) < length [1, 2, 3::nat] \<and>
   use_move int_T \<and> is_nothrow_move_assignable int_T \<and>
   (\<exists>hp' this'.
      Erase int_T (1, 1) (sample_heap 4 [1, 2, 3], sample_vector 4 3)
        = (Inr (1, 1), hp', this') \<and>
      elems hp' this' = [Live 1, Live 3] \<and> Size this' = 2)"
proof -
  have h: "holds (sample_heap 4 [1, 2, 3]) (sample_vector 4 3) [1, 2, 3::nat]"
    by (rule holds_sample) simp_all
  have p: "(1::nat) < length [1, 2, 3::nat]" by simp
  have ok: "\<forall>x\<in>set (drop (Suc 1) [1, 2, 3::nat]).
      if use_move int_T then is_nothrow_move_assignable int_T \<or> \<not> move_assign_throws int_T x
      else \<not> copy_assign_throws int_T x"
    by (simp add: int_T_def use_move_def)
  have tr: "use_move int_T \<and> is_nothrow_move_assignable int_T"
    by (simp add: int_T_def use_move_def)
  from Erase_removes_element[OF h p ok] h p tr show ?thesis
    by (auto simp: sample_vector_def Size_def)
qed

text \<open>
  C8, as stated, fails: move assignment from an array of capacity 3 into an array of
  capacity 4 leaves the target with capacity 3, and no copy assignment is involved.
\<close>

theorem Vector_move_assign_shrinks_capacity:
  "(let (s', hp') = Vector_move_assign 0 1
                      (sample_store 4 2 3 3, sample_heap2 4 [1, 2] 3 [7, 8, 9::nat])
    in Capacity (sample_store 4 2 3 3 0) = 4 \<and> Capacity (s' 0) = 3 \<and>
       Capacity (s' 0) < Capacity (sample_store 4 2 3 3 0))"
  by (simp add: Vector_move_assign_eq sample_store_def Capacity_def Capacity_raw_def)

text \<open>
  C8, amended. An append or a positional insert that returns normally leaves the
  capacity at 1 if the array was full with capacity 0, at twice the capacity if it was
  full otherwise, and unchanged if it was not full. Whatever their outcome, append,
  positional insert, \<open>Reserve\<close>, \<open>Resize\<close>, \<open>PopBack\<close>, \<open>Erase\<close> and copy assignment (with or
  without the swap) never lower the capacity of the array; the operations left, which
  hand a buffer from one array to another (move construction, move assignment, \<open>Swap\<close>),
  are the only ones that can.
\<close>

theorem capacity_policy:
  "((\<exists>r. fst (EmplaceBack T mk (hp, this)) = Inr r) \<longrightarrow>
      Capacity (snd (snd (EmplaceBack T mk (hp, this)))) =
        (if Size this = Capacity this then (if Capacity this = 0 then 1 else Capacity this * 2)
         else Capacity this)) \<and>
   ((\<exists>r. fst (PushBack T v (hp, this)) = Inr r) \<longrightarrow>
      Capacity (snd (snd (PushBack T v (hp, this)))) =
        (if Size this = Capacity this then (if Capacity this = 0 then 1 else Capacity this * 2)
         else Capacity this)) \<and>
   ((\<exists>r. fst (Emplace T pos mk (hp, this)) = Inr r) \<longrightarrow>
      Capacity (snd (snd (Emplace T pos mk (hp, this)))) =
        (if Size this = Capacity this then (if Capacity this = 0 then 1 else Capacity this * 2)
         else Capacity this)) \<and>
   ((\<exists>r. fst (Insert T pos v (hp, this)) = Inr r) \<longrightarrow>
      Capacity (snd (snd (Insert T pos v (hp, this)))) =
        (if Size this = Capacity this then (if Capacity this = 0 then 1 else Capacity this * 2)
         else Capacity this)) \<and>
   Capacity this \<le> Capacity (snd (snd (EmplaceBack T mk (hp, this)))) \<and>
   Capacity this \<le> Capacity (snd (snd (PushBack T v (hp, this)))) \<and>
   Capacity this \<le> Capacity (snd (snd (Emplace T pos mk (hp, this)))) \<and>
   Capacity this \<le> Capacity (snd (snd (Insert T pos v (hp, this)))) \<and>
   Capacity this \<le> Capacity (snd (snd (Reserve T n (hp, this)))) \<and>
   Capacity this \<le> Capacity (snd (snd (Resize T n (hp, this)))) \<and>
   Capacity this \<le> Capacity (snd (snd (PopBack (hp, this)))) \<and>
   Capacity this \<le> Capacity (snd (snd (Erase T pos (hp, this)))) \<and>
   Capacity (s a) \<le> Capacity (fst (snd (Vector_copy_assign T a b (s, hp))) a)"
proof -
  have eb: "EmplaceBack T mk (hp, this) =
              (fst (EmplaceBack T mk (hp, this)), fst (snd (EmplaceBack T mk (hp, this))),
               snd (snd (EmplaceBack T mk (hp, this))))" by simp
  have em: "Emplace T pos mk (hp, this) =
              (fst (Emplace T pos mk (hp, this)), fst (snd (Emplace T pos mk (hp, this))),
               snd (snd (Emplace T pos mk (hp, this))))" by simp
  have ins: "Insert T pos v (hp, this) =
              (fst (Insert T pos v (hp, this)), fst (snd (Insert T pos v (hp, this))),
               snd (snd (Insert T pos v (hp, this))))" by simp
  have pb: "PushBack T v (hp, this) =
              (fst (PushBack T v (hp, this)), fst (snd (PushBack T v (hp, this))),
               snd (snd (PushBack T v (hp, this))))" by simp
  have rs: "Reserve T n (hp, this) =
              (fst (Reserve T n (hp, this)), fst (snd (Reserve T n (hp, this))),
               snd (snd (Reserve T n (hp, this))))" by simp
  have rz: "Resize T n (hp, this) =
              (fst (Resize T n (hp, this)), fst (snd (Resize T n (hp, this))),
               snd (snd (Resize T n (hp, this))))" by simp
  have pp: "PopBack (hp, this) =
              (fst (PopBack (hp, this)), fst (snd (PopBack (hp, this))),
               snd (snd (PopBack (hp, this))))" by simp
  have er: "Erase T pos (hp, this) =
              (fst (Erase T pos (hp, this)), fst (snd (Erase T pos (hp, this))),
               snd (snd (Erase T pos (hp, this))))" by simp
  have ca: "Vector_copy_assign T a b (s, hp) =
              (fst (Vector_copy_assign T a b (s, hp)), fst (snd (Vector_copy_assign T a b (s, hp))),
               snd (snd (Vector_copy_assign T a b (s, hp))))" by simp
  have pbe: "snd (PushBack T v (hp, this)) = snd (EmplaceBack T (forward_construct T v) (hp, this))"
    "(\<exists>r. fst (PushBack T v (hp, this)) = Inr r) \<longleftrightarrow>
     (\<exists>r. fst (EmplaceBack T (forward_construct T v) (hp, this)) = Inr r)"
    by (auto simp: PushBack_def split: prod.splits sum.splits)
  have ebv: "EmplaceBack T (forward_construct T v) (hp, this) =
              (fst (EmplaceBack T (forward_construct T v) (hp, this)),
               fst (snd (EmplaceBack T (forward_construct T v) (hp, this))),
               snd (snd (EmplaceBack T (forward_construct T v) (hp, this))))" by simp
  note A = EmplaceBack_vec[OF eb] EmplaceBack_vec[OF ebv] Emplace_vec[OF em] Insert_vec[OF ins]
    Reserve_vec[OF rs] Resize_vec[OF rz] PopBack_vec[OF pp] Erase_vec[OF er]
    Vector_copy_assign_vec[OF ca]
  show ?thesis
    unfolding Capacity_def Capacity_raw_def Size_def pbe
    using A by (intro conjI) (simp_all (no_asm_simp))
qed

theorem capacity_policy_witness:
  "(\<exists>r. fst (EmplaceBack int_T (\<lambda>h. Inr 7) (sample_heap 3 [1, 2, 3], sample_vector 3 3)) = Inr r) \<and>
   Capacity (snd (snd (EmplaceBack int_T (\<lambda>h. Inr 7) (sample_heap 3 [1, 2, 3], sample_vector 3 3)))) = 6 \<and>
   (\<exists>r. fst (Insert int_T (1, 1) (Lvalue 7) (sample_heap 3 [1, 2, 3], sample_vector 3 3)) = Inr r) \<and>
   Capacity (snd (snd (Insert int_T (1, 1) (Lvalue 7) (sample_heap 3 [1, 2, 3], sample_vector 3 3)))) = 6 \<and>
   (\<exists>r. fst (EmplaceBack int_T (\<lambda>h. Inr 7) (sample_heap 0 [], sample_vector 0 0)) = Inr r) \<and>
   Capacity (snd (snd (EmplaceBack int_T (\<lambda>h. Inr 7) (sample_heap 0 [], sample_vector 0 0)))) = 1"
proof -
  have c: "Capacity (sample_vector k m) = k" "Size (sample_vector k m) = m" for k m
    by (simp_all add: sample_vector_def Capacity_def Capacity_raw_def Size_def)
  have 1: "\<exists>r. fst (EmplaceBack int_T (\<lambda>h. Inr 7) (sample_heap 3 [1, 2, 3], sample_vector 3 3)) = Inr r"
  proof -
    have "fst (EmplaceBack int_T (\<lambda>h. Inr 7) (sample_heap 3 [1, 2, 3], sample_vector 3 3)) = Inr (2, 3)"
      by code_simp
    then show ?thesis by blast
  qed
  have 2: "\<exists>r. fst (Insert int_T (1, 1) (Lvalue 7) (sample_heap 3 [1, 2, 3], sample_vector 3 3)) = Inr r"
  proof -
    have "fst (Insert int_T (1, 1) (Lvalue 7) (sample_heap 3 [1, 2, 3], sample_vector 3 3)) = Inr (2, 1)"
      by code_simp
    then show ?thesis by blast
  qed
  have 3: "\<exists>r. fst (EmplaceBack int_T (\<lambda>h. Inr 7) (sample_heap 0 [], sample_vector 0 0)) = Inr r"
  proof -
    have "fst (EmplaceBack int_T (\<lambda>h. Inr 7) (sample_heap 0 [], sample_vector 0 0)) = Inr (2, 0)"
      by code_simp
    then show ?thesis by blast
  qed
  from capacity_policy[of int_T "\<lambda>h. Inr 7" "sample_heap 3 [1, 2, 3]" "sample_vector 3 3"] 1
  have A: "Capacity (snd (snd (EmplaceBack int_T (\<lambda>h. Inr 7) (sample_heap 3 [1, 2, 3], sample_vector 3 3)))) = 6"
    by (simp add: c)
  from capacity_policy[of int_T _ "sample_heap 3 [1, 2, 3]" "sample_vector 3 3" "Lvalue 7" "(1, 1)"] 2
  have B: "Capacity (snd (snd (Insert int_T (1, 1) (Lvalue 7) (sample_heap 3 [1, 2, 3], sample_vector 3 3)))) = 6"
    by (simp add: c)
  from capacity_policy[of int_T "\<lambda>h. Inr 7" "sample_heap 0 []" "sample_vector 0 0"] 3
  have C: "Capacity (snd (snd (EmplaceBack int_T (\<lambda>h. Inr 7) (sample_heap 0 [], sample_vector 0 0)))) = 1"
    by (simp add: c)
  from 1 2 3 A B C show ?thesis by blast
qed

text \<open>
  C9. In every state a program reaches from no arrays by constructing, destroying,
  assigning, swapping and calling the member functions of arrays, every array has
  \<open>0 \<le> size \<le> capacity\<close>; and every such call that comes back to its caller, normally or
  with an exception, from a state where all arrays satisfy this leads to a state where
  all arrays satisfy it.
\<close>

theorem size_within_capacity_invariant:
  "(reachable T w \<longrightarrow> world_invariant w) \<and>
   (world_invariant w \<longrightarrow> exec T c w = Some w' \<longrightarrow> world_invariant w')"
  using reachable_invariant exec_invariant by blast

theorem size_within_capacity_invariant_witness:
  "reachable int_T sample_world \<and> world_invariant sample_world \<and>
   exec int_T (Call_PushBack 0 (Lvalue 7)) sample_world
     = Some (the (exec int_T (Call_PushBack 0 (Lvalue 7)) sample_world)) \<and>
   world_invariant (the (exec int_T (Call_PushBack 0 (Lvalue 7)) sample_world)) \<and>
   map (map_option (\<lambda>v. (Size v, Capacity v)))
     (fst (the (exec int_T (Call_PushBack 0 (Lvalue 7)) sample_world))) = [Some (3, 4)]"
proof -
  have "exec int_T (New_sized 2) ([], \<lparr>mem = (\<lambda>q. Raw), table = []\<rparr>) \<noteq> None"
    by code_simp
  then have e1: "exec int_T (New_sized 2) ([], \<lparr>mem = (\<lambda>q. Raw), table = []\<rparr>) = Some sample_world"
    by (simp add: sample_world_def)
  have r: "reachable int_T sample_world"
    by (rule reachable.call[OF reachable.start e1])
  have "exec int_T (Call_PushBack 0 (Lvalue 7)) sample_world \<noteq> None"
    by code_simp
  then have e2: "exec int_T (Call_PushBack 0 (Lvalue 7)) sample_world
     = Some (the (exec int_T (Call_PushBack 0 (Lvalue 7)) sample_world))"
    by simp
  have v: "map (map_option (\<lambda>v. (Size v, Capacity v)))
     (fst (the (exec int_T (Call_PushBack 0 (Lvalue 7)) sample_world))) = [Some (3, 4)]"
    by code_simp
  from size_within_capacity_invariant[of int_T sample_world "Call_PushBack 0 (Lvalue 7)"
         "the (exec int_T (Call_PushBack 0 (Lvalue 7)) sample_world)"] r e2 v
  show ?thesis by blast
qed

text \<open>
  C10. Copy-assigning or move-assigning an array to itself changes neither the array
  (size, capacity, buffer) nor any other array nor the heap, so its elements are the
  same.
\<close>

theorem self_assignment_unchanged:
  "Vector_copy_assign T a a (s, hp) = (Inr (), s, hp) \<and> Vector_move_assign a a (s, hp) = (s, hp)"
  by (simp add: Vector_copy_assign_def Vector_move_assign_def)


end
